theory Spec2Isabelle
  imports Complex_Main "HOL-Library.Sublist"
begin

section \<open>The dispatch engine of watchdog (watchdog/observers/api.py)\<close>

text \<open>
  The theory embeds \<^verbatim>\<open>src/watchdog/observers/api.py\<close>: the watch descriptor
  \<^verbatim>\<open>ObservedWatch\<close>, the producer \<^verbatim>\<open>EventEmitter\<close>, the consumer
  \<^verbatim>\<open>EventDispatcher\<close> and the engine \<^verbatim>\<open>BaseObserver\<close>.

  Every method becomes a function that takes the engine's state and returns a
  \<open>result\<close>: the value returned with the state after the call, the exception raised
  with the state the call left behind (Python keeps every assignment made before the
  \<^verbatim>\<open>raise\<close>), or the fact that the call waits in a blocking read.
  The engine's reentrant lock is not modelled: the model runs one call at a time, and a
  handler that calls back into the engine does so on the thread that holds the lock.
\<close>

subsection \<open>Exceptions and results\<close>

datatype exn = KeyError | RuntimeError | ValueError | Empty | Full | OSError

datatype ('a, 's) result = Return 'a 's | Raise exn 's | Blocks 's

subsection \<open>ObservedWatch\<close>

text \<open>
  The three attributes of a watch. Its \<^verbatim>\<open>__eq__\<close> and \<^verbatim>\<open>__hash__\<close> go through
  \<open>key\<close>, the triple of the attributes, so two watches are equal in Python exactly when
  the records are equal in HOL. The type \<open>'c\<close> is the type of event classes.
\<close>

record 'c observed_watch =
  path :: string
  is_recursive :: bool
  event_filter :: "'c set option"

text \<open>
  The \<^verbatim>\<open>path\<close> argument is a string or a \<^verbatim>\<open>pathlib.Path\<close>. A \<open>PathObj s\<close> is a
  Path object whose string form \<^verbatim>\<open>str(path)\<close> is \<open>s\<close>.
\<close>

datatype path_arg = Str string | PathObj string

definition ObservedWatch :: "path_arg \<Rightarrow> bool \<Rightarrow> 'c list option \<Rightarrow> 'c observed_watch" where
  "ObservedWatch p recursive ef =
     \<lparr> path = (case p of PathObj s \<Rightarrow> s | Str s \<Rightarrow> s),
       is_recursive = recursive,
       event_filter = (case ef of None \<Rightarrow> None | Some xs \<Rightarrow> Some (set xs)) \<rparr>"

definition key :: "'c observed_watch \<Rightarrow> string \<times> bool \<times> 'c set option" where
  "key w = (path w, is_recursive w, event_filter w)"

definition watch_eq :: "'c observed_watch \<Rightarrow> 'c observed_watch \<Rightarrow> bool" where
  "watch_eq w w' = (key w = key w')"

text \<open>\<^verbatim>\<open>__hash__\<close>: Python's \<^verbatim>\<open>hash\<close> of the key; the builtin is the argument \<open>py_hash\<close>.\<close>

definition watch_hash :: "(string \<times> bool \<times> 'c set option \<Rightarrow> int) \<Rightarrow> 'c observed_watch \<Rightarrow> int" where
  "watch_hash py_hash w = py_hash (key w)"

text \<open>
  \<^verbatim>\<open>str(Path(p))\<close> on a POSIX system, from the standard library's \<^verbatim>\<open>pathlib\<close>
  (it is not code of the repository): the path is split at \<^verbatim>\<open>/\<close>, empty components and
  \<^verbatim>\<open>.\<close> are dropped, a leading \<^verbatim>\<open>/\<close> is kept (exactly two leading slashes are kept
  as two), and the empty path is \<^verbatim>\<open>.\<close>.
\<close>

fun split_sep :: "string \<Rightarrow> string list" where
  "split_sep [] = [[]]"
| "split_sep (c # cs) =
     (if c = CHR ''/'' then [] # split_sep cs
      else (case split_sep cs of [] \<Rightarrow> [[c]] | x # xs \<Rightarrow> (c # x) # xs))"

fun join_sep :: "string list \<Rightarrow> string" where
  "join_sep [] = []"
| "join_sep [x] = x"
| "join_sep (x # y # ys) = x @ CHR ''/'' # join_sep (y # ys)"

definition posix_root :: "string \<Rightarrow> string" where
  "posix_root p =
     (if take 2 p = ''//'' \<and> take 3 p \<noteq> ''///'' then ''//''
      else if take 1 p = ''/'' then ''/'' else [])"

definition pathlib_str :: "string \<Rightarrow> string" where
  "pathlib_str p =
     (let parts = filter (\<lambda>x. x \<noteq> [] \<and> x \<noteq> ''.'') (split_sep p);
          s = posix_root p @ join_sep parts
      in if s = [] then ''.'' else s)"

text \<open>The constructor \<^verbatim>\<open>Path(p)\<close>: the Path object whose string form is \<open>pathlib_str p\<close>.\<close>

definition Path :: "string \<Rightarrow> path_arg" where
  "Path p = PathObj (pathlib_str p)"

subsection \<open>EventQueue\<close>

text \<open>
  A queue entry is the stop sentinel \<^verbatim>\<open>EventDispatcher.stop_event\<close> or a pair of an
  event and the watch it comes from.
\<close>

datatype ('e, 'c) entry = Stop_event | Entry 'e "'c observed_watch"

text \<open>
  Modelled from the spec: \<^verbatim>\<open>watchdog.utils.bricks.SkipRepeatsQueue\<close>, the class
  \<^verbatim>\<open>EventQueue\<close> inherits everything from, is not under src/. The spec gives the queue
  an ordered sequence of entries and the last entry enqueued; \<^verbatim>\<open>put\<close> appends an entry
  unless it equals the most recently enqueued one, which is dropped silently; \<^verbatim>\<open>get\<close>
  waits up to a timeout and signals the empty condition; \<^verbatim>\<open>put_nowait\<close> signals the
  full condition when a capacity bound exists; entries are marked done after processing.
  \<open>maxsize = 0\<close> is no bound, as in Python's \<^verbatim>\<open>queue.Queue\<close>.
\<close>

record ('e, 'c) event_queue =
  items :: "('e, 'c) entry list"
  last_item :: "('e, 'c) entry option"
  unfinished_tasks :: nat
  maxsize :: nat

text \<open>Modelled from the spec: the queue the engine builds with \<^verbatim>\<open>EventQueue()\<close>, empty and
  with no capacity bound.\<close>

definition EventQueue :: "('e, 'c) event_queue" where
  "EventQueue = \<lparr> items = [], last_item = None, unfinished_tasks = 0, maxsize = 0 \<rparr>"

text \<open>Modelled from the spec: the full condition of a queue with a capacity bound.\<close>

definition full :: "('e, 'c) event_queue \<Rightarrow> bool" where
  "full q = (0 < maxsize q \<and> maxsize q \<le> length (items q))"

text \<open>Modelled from the spec: what \<^verbatim>\<open>put\<close> does with an entry it accepts: the entry is
  appended unless it equals the last entry enqueued, in which case it is dropped.\<close>

definition put_item :: "('e, 'c) entry \<Rightarrow> ('e, 'c) event_queue \<Rightarrow> ('e, 'c) event_queue" where
  "put_item x q =
     (if last_item q = Some x then q
      else q\<lparr> items := items q @ [x], last_item := Some x,
                unfinished_tasks := Suc (unfinished_tasks q) \<rparr>)"

text \<open>Modelled from the spec: \<^verbatim>\<open>put(entry)\<close>, which waits while the queue is full.\<close>

definition put :: "('e, 'c) entry \<Rightarrow> ('e, 'c) event_queue \<Rightarrow> (unit, ('e, 'c) event_queue) result" where
  "put x q = (if full q then Blocks q else Return () (put_item x q))"

text \<open>Modelled from the spec: \<^verbatim>\<open>put_nowait(entry)\<close>, which signals the full condition
  instead of waiting.\<close>

definition put_nowait :: "('e, 'c) entry \<Rightarrow> ('e, 'c) event_queue \<Rightarrow> (unit, ('e, 'c) event_queue) result" where
  "put_nowait x q = (if full q then Raise Full q else Return () (put_item x q))"

text \<open>
  Modelled from the spec: \<^verbatim>\<open>get(block, timeout)\<close>, first in first out. With no timeout
  (\<open>None\<close>, the default of Python's \<^verbatim>\<open>queue.Queue.get\<close>) a blocking read of an empty
  queue waits until an entry arrives; with a timeout, or when it does not block, it
  signals \<open>Empty\<close>.
\<close>

definition get :: "bool \<Rightarrow> rat option \<Rightarrow> ('e, 'c) event_queue \<Rightarrow> (('e, 'c) entry, ('e, 'c) event_queue) result" where
  "get block tmo q =
     (case items q of
        x # xs \<Rightarrow> Return x (q\<lparr> items := xs \<rparr>)
      | [] \<Rightarrow> (if block \<and> tmo = None then Blocks q else Raise Empty q))"

text \<open>Modelled from the spec: marking an entry done; Python's \<^verbatim>\<open>task_done\<close> raises
  \<^verbatim>\<open>ValueError\<close> when no task is left.\<close>

definition task_done :: "('e, 'c) event_queue \<Rightarrow> (unit, ('e, 'c) event_queue) result" where
  "task_done q =
     (if unfinished_tasks q = 0 then Raise ValueError q
      else Return () (q\<lparr> unfinished_tasks := unfinished_tasks q - 1 \<rparr>))"

text \<open>Enqueuing a sequence of entries, one \<^verbatim>\<open>put\<close> after the other.\<close>

fun put_all :: "('e, 'c) entry list \<Rightarrow> ('e, 'c) event_queue \<Rightarrow> (unit, ('e, 'c) event_queue) result" where
  "put_all [] q = Return () q"
| "put_all (x # xs) q =
     (case put x q of Return _ q' \<Rightarrow> put_all xs q' | Raise e q' \<Rightarrow> Raise e q' | Blocks q' \<Rightarrow> Blocks q')"


subsection \<open>Threads\<close>

text \<open>
  Modelled from the spec: \<^verbatim>\<open>watchdog.utils.BaseThread\<close>, the worker thread producers
  and the consumer are built on, is not under src/. The spec gives it the states Idle,
  Running, Stopping (cancellation requested) and Stopped; starting a thread that never
  started or has stopped begins its loop, starting it twice is left undefined (Python's
  \<^verbatim>\<open>threading\<close> raises \<^verbatim>\<open>RuntimeError\<close>, which the model takes); stopping a thread that
  does not run is a no-op; joining a thread that never started raises
  \<^verbatim>\<open>RuntimeError\<close> (the error the engine suppresses), and a join that returns leaves the
  thread stopped.
\<close>

datatype thread_state = Idle | Running | Stopping | Stopped

text \<open>Modelled from the spec: \<^verbatim>\<open>start()\<close> of a worker thread.\<close>

definition thread_start :: "thread_state \<Rightarrow> exn + thread_state" where
  "thread_start st = (if st = Idle \<or> st = Stopped then Inr Running else Inl RuntimeError)"

text \<open>Modelled from the spec: \<^verbatim>\<open>stop()\<close>, the request for cancellation.\<close>

definition thread_stop :: "thread_state \<Rightarrow> thread_state" where
  "thread_stop st = (if st = Running then Stopping else st)"

text \<open>Modelled from the spec: \<^verbatim>\<open>join()\<close>.\<close>

definition thread_join :: "thread_state \<Rightarrow> exn + thread_state" where
  "thread_join st = (if st = Idle then Inl RuntimeError else Inr Stopped)"

text \<open>Modelled from the spec: \<^verbatim>\<open>is_alive()\<close>.\<close>

definition thread_is_alive :: "thread_state \<Rightarrow> bool" where
  "thread_is_alive st = (st = Running \<or> st = Stopping)"

text \<open>Modelled from the spec: the poll \<^verbatim>\<open>should_keep_running()\<close> of the loop body.\<close>

definition thread_should_keep_running :: "thread_state \<Rightarrow> bool" where
  "thread_should_keep_running st = (st \<noteq> Stopping \<and> st \<noteq> Stopped)"

subsection \<open>EventEmitter\<close>

text \<open>
  A producer. \<open>em_id\<close> is the identity of the Python object: emitters are compared and
  hashed by identity, and the state of an emitter's thread is kept in the engine's state
  under this identity. The queue an emitter writes to is the engine's queue; the model
  passes it to \<open>queue_event\<close>.
\<close>

record 'c emitter =
  em_id :: nat
  em_watch :: "'c observed_watch"
  em_timeout :: rat
  em_event_filter :: "'c set option"

definition DEFAULT_EMITTER_TIMEOUT :: rat where
  "DEFAULT_EMITTER_TIMEOUT = 1"

definition DEFAULT_OBSERVER_TIMEOUT :: rat where
  "DEFAULT_OBSERVER_TIMEOUT = 1"

definition EventEmitter :: "nat \<Rightarrow> 'c observed_watch \<Rightarrow> rat \<Rightarrow> 'c list option \<Rightarrow> 'c emitter" where
  "EventEmitter i w tmo ef =
     \<lparr> em_id = i, em_watch = w, em_timeout = tmo,
       em_event_filter = (case ef of None \<Rightarrow> None | Some xs \<Rightarrow> Some (set xs)) \<rparr>"

text \<open>
  \<^verbatim>\<open>queue_event\<close>. The builtin \<^verbatim>\<open>isinstance\<close> is the argument \<open>isinstance\<close>: the
  event classes (\<^verbatim>\<open>watchdog.events\<close>) are not under src/.
\<close>

definition queue_event ::
  "('e \<Rightarrow> 'c \<Rightarrow> bool) \<Rightarrow> 'c emitter \<Rightarrow> 'e \<Rightarrow> ('e, 'c) event_queue \<Rightarrow> (unit, ('e, 'c) event_queue) result" where
  "queue_event isinstance em event q =
     (if (case em_event_filter em of None \<Rightarrow> True
          | Some fs \<Rightarrow> (\<exists>cls \<in> fs. isinstance event cls))
      then put (Entry event (em_watch em)) q
      else Return () q)"

subsection \<open>BaseObserver\<close>

text \<open>
  The engine. \<open>thread\<close> is the state of the engine's own consumer thread,
  \<open>emitter_class\<close> says which exception, if any, the \<^verbatim>\<open>start()\<close> of an emitter of the
  engine's emitter class raises (a platform emitter fails to start on a path it cannot
  watch), \<open>emitter_thread\<close> holds the thread state of every emitter object, and
  \<open>next_id\<close> is the identity of the next object constructed. \<open>'h\<close> is the type of
  handlers and \<open>'e\<close> the type of events.
\<close>

record ('h, 'e, 'c) observer =
  event_queue :: "('e, 'c) event_queue"
  timeout :: rat
  thread :: thread_state
  emitter_class :: "'c emitter \<Rightarrow> exn option"
  watches :: "'c observed_watch set"
  handlers :: "'c observed_watch \<rightharpoonup> 'h set"
  emitters :: "'c emitter set"
  emitter_for_watch :: "'c observed_watch \<rightharpoonup> 'c emitter"
  emitter_thread :: "nat \<Rightarrow> thread_state"
  next_id :: nat

definition BaseObserver :: "('c emitter \<Rightarrow> exn option) \<Rightarrow> rat \<Rightarrow> ('h, 'e, 'c) observer" where
  "BaseObserver ec tmo =
     \<lparr> event_queue = EventQueue, timeout = tmo, thread = Idle, emitter_class = ec,
       watches = {}, handlers = Map.empty, emitters = {}, emitter_for_watch = Map.empty,
       emitter_thread = (\<lambda>_. Idle), next_id = 0 \<rparr>"

definition is_alive :: "('h, 'e, 'c) observer \<Rightarrow> bool" where
  "is_alive s = thread_is_alive (thread s)"

definition should_keep_running :: "('h, 'e, 'c) observer \<Rightarrow> bool" where
  "should_keep_running s = thread_should_keep_running (thread s)"

text \<open>\<^verbatim>\<open>emitter.start()\<close>, \<^verbatim>\<open>emitter.stop()\<close> and \<^verbatim>\<open>emitter.join()\<close>.\<close>

definition emitter_start :: "'c emitter \<Rightarrow> ('h, 'e, 'c) observer \<Rightarrow> (unit, ('h, 'e, 'c) observer) result" where
  "emitter_start em s =
     (case emitter_class s em of
        Some e \<Rightarrow> Raise e s
      | None \<Rightarrow>
          (case thread_start (emitter_thread s (em_id em)) of
             Inl e \<Rightarrow> Raise e s
           | Inr st \<Rightarrow> Return () (s\<lparr> emitter_thread := (emitter_thread s)(em_id em := st) \<rparr>)))"

definition emitter_stop :: "'c emitter \<Rightarrow> ('h, 'e, 'c) observer \<Rightarrow> ('h, 'e, 'c) observer" where
  "emitter_stop em s =
     s\<lparr> emitter_thread := (emitter_thread s)(em_id em := thread_stop (emitter_thread s (em_id em))) \<rparr>"

definition emitter_join :: "'c emitter \<Rightarrow> ('h, 'e, 'c) observer \<Rightarrow> (unit, ('h, 'e, 'c) observer) result" where
  "emitter_join em s =
     (case thread_join (emitter_thread s (em_id em)) of
        Inl e \<Rightarrow> Raise e s
      | Inr st \<Rightarrow> Return () (s\<lparr> emitter_thread := (emitter_thread s)(em_id em := st) \<rparr>))"

text \<open>The private registry methods \<^verbatim>\<open>_add_emitter\<close>, \<^verbatim>\<open>_remove_emitter\<close>,
  \<^verbatim>\<open>_clear_emitters\<close>, \<^verbatim>\<open>_add_handler_for_watch\<close> and
  \<^verbatim>\<open>_remove_handlers_for_watch\<close> (an Isabelle name cannot start with an underscore).\<close>

definition add_emitter :: "'c emitter \<Rightarrow> ('h, 'e, 'c) observer \<Rightarrow> ('h, 'e, 'c) observer" where
  "add_emitter em s =
     s\<lparr> emitter_for_watch := (emitter_for_watch s)(em_watch em \<mapsto> em),
        emitters := insert em (emitters s) \<rparr>"

definition remove_emitter :: "'c emitter \<Rightarrow> ('h, 'e, 'c) observer \<Rightarrow> (unit, ('h, 'e, 'c) observer) result" where
  "remove_emitter em s =
     (if emitter_for_watch s (em_watch em) = None then Raise KeyError s
      else
        let s1 = s\<lparr> emitter_for_watch := (emitter_for_watch s)(em_watch em := None) \<rparr> in
        if em \<in> emitters s1 then
          (case emitter_join em (emitter_stop em (s1\<lparr> emitters := emitters s1 - {em} \<rparr>)) of
             Return u s2 \<Rightarrow> Return () s2
           | Raise e s2 \<Rightarrow> (if e = RuntimeError then Return () s2 else Raise e s2)
           | Blocks s2 \<Rightarrow> Blocks s2)
        else Raise KeyError s1)"

text \<open>
  \<^verbatim>\<open>_clear_emitters\<close> stops every emitter of the set and then joins every one,
  suppressing \<^verbatim>\<open>RuntimeError\<close>. Each step acts on the thread of one emitter only, so
  the order in which the set is iterated does not show in the result.
\<close>

definition clear_emitters :: "('h, 'e, 'c) observer \<Rightarrow> ('h, 'e, 'c) observer" where
  "clear_emitters s =
     (let ids = em_id ` emitters s;
          stopped = (\<lambda>i. if i \<in> ids then thread_stop (emitter_thread s i) else emitter_thread s i);
          joined = (\<lambda>i. if i \<in> ids
                         then (case thread_join (stopped i) of Inl e \<Rightarrow> stopped i | Inr st \<Rightarrow> st)
                         else stopped i)
      in s\<lparr> emitter_thread := joined, emitters := {}, emitter_for_watch := Map.empty \<rparr>)"

text \<open>\<^verbatim>\<open>self._handlers.get(watch, [])\<close>, read as a set.\<close>

definition handlers_get :: "('h, 'e, 'c) observer \<Rightarrow> 'c observed_watch \<Rightarrow> 'h set" where
  "handlers_get s w = (case handlers s w of None \<Rightarrow> {} | Some hs \<Rightarrow> hs)"

definition priv_add_handler_for_watch :: "'h \<Rightarrow> 'c observed_watch \<Rightarrow> ('h, 'e, 'c) observer \<Rightarrow> ('h, 'e, 'c) observer" where
  "priv_add_handler_for_watch h w s =
     (let hs = (if handlers s w = None then (handlers s)(w \<mapsto> {}) else handlers s)
      in s\<lparr> handlers := hs(w \<mapsto> insert h (case hs w of None \<Rightarrow> {} | Some x \<Rightarrow> x)) \<rparr>)"

definition priv_remove_handlers_for_watch :: "'c observed_watch \<Rightarrow> ('h, 'e, 'c) observer \<Rightarrow> (unit, ('h, 'e, 'c) observer) result" where
  "priv_remove_handlers_for_watch w s =
     (if handlers s w = None then Raise KeyError s
      else Return () (s\<lparr> handlers := (handlers s)(w := None) \<rparr>))"

text \<open>
  \<^verbatim>\<open>start\<close>. The emitters are started in the order in which the copy of the set is
  iterated; Python does not fix that order, so the enumeration of a set is the argument
  \<open>list_of\<close>.
\<close>

fun start_emitters :: "'c emitter list \<Rightarrow> ('h, 'e, 'c) observer \<Rightarrow> (unit, ('h, 'e, 'c) observer) result" where
  "start_emitters [] s = Return () s"
| "start_emitters (em # ems) s =
     (case emitter_start em s of
        Return u s1 \<Rightarrow> start_emitters ems s1
      | Raise e s1 \<Rightarrow>
          (case remove_emitter em s1 of
             Return u s2 \<Rightarrow> Raise e s2
           | Raise e' s2 \<Rightarrow> Raise e' s2
           | Blocks s2 \<Rightarrow> Blocks s2)
      | Blocks s1 \<Rightarrow> Blocks s1)"

definition start :: "('c emitter set \<Rightarrow> 'c emitter list) \<Rightarrow> ('h, 'e, 'c) observer \<Rightarrow> (unit, ('h, 'e, 'c) observer) result" where
  "start list_of s =
     (case start_emitters (list_of (emitters s)) s of
        Return u s1 \<Rightarrow>
          (case thread_start (thread s1) of
             Inl e \<Rightarrow> Raise e s1
           | Inr st \<Rightarrow> Return () (s1\<lparr> thread := st \<rparr>))
      | Raise e s1 \<Rightarrow> Raise e s1
      | Blocks s1 \<Rightarrow> Blocks s1)"

text \<open>\<^verbatim>\<open>schedule\<close> returns the watch it built.\<close>

definition schedule ::
  "'h \<Rightarrow> path_arg \<Rightarrow> bool \<Rightarrow> 'c list option \<Rightarrow> ('h, 'e, 'c) observer \<Rightarrow> ('c observed_watch, ('h, 'e, 'c) observer) result" where
  "schedule event_handler p recursive ef s =
     (let w = ObservedWatch p recursive ef;
          s1 = priv_add_handler_for_watch event_handler w s
      in if emitter_for_watch s1 w = None then
           (let em = EventEmitter (next_id s1) w (timeout s1) ef;
                s2 = s1\<lparr> next_id := Suc (next_id s1) \<rparr>
            in case (if is_alive s2 then emitter_start em s2 else Return () s2) of
                 Return u s3 \<Rightarrow>
                   (let s4 = add_emitter em s3 in Return w (s4\<lparr> watches := insert w (watches s4) \<rparr>))
               | Raise e s3 \<Rightarrow> Raise e s3
               | Blocks s3 \<Rightarrow> Blocks s3)
         else Return w (s1\<lparr> watches := insert w (watches s1) \<rparr>))"

definition add_handler_for_watch :: "'h \<Rightarrow> 'c observed_watch \<Rightarrow> ('h, 'e, 'c) observer \<Rightarrow> (unit, ('h, 'e, 'c) observer) result" where
  "add_handler_for_watch h w s = Return () (priv_add_handler_for_watch h w s)"

definition remove_handler_for_watch :: "'h \<Rightarrow> 'c observed_watch \<Rightarrow> ('h, 'e, 'c) observer \<Rightarrow> (unit, ('h, 'e, 'c) observer) result" where
  "remove_handler_for_watch h w s =
     (case handlers s w of
        None \<Rightarrow> Raise KeyError s
      | Some hs \<Rightarrow>
          (if h \<in> hs then Return () (s\<lparr> handlers := (handlers s)(w \<mapsto> hs - {h}) \<rparr>)
           else Raise KeyError s))"

definition unschedule :: "'c observed_watch \<Rightarrow> ('h, 'e, 'c) observer \<Rightarrow> (unit, ('h, 'e, 'c) observer) result" where
  "unschedule w s =
     (case emitter_for_watch s w of
        None \<Rightarrow> Raise KeyError s
      | Some em \<Rightarrow>
          (if handlers s w = None then Raise KeyError s
           else
             (case remove_emitter em (s\<lparr> handlers := (handlers s)(w := None) \<rparr>) of
                Return u s2 \<Rightarrow>
                  (if w \<in> watches s2 then Return () (s2\<lparr> watches := watches s2 - {w} \<rparr>)
                   else Raise KeyError s2)
              | Raise e s2 \<Rightarrow> Raise e s2
              | Blocks s2 \<Rightarrow> Blocks s2)))"

definition unschedule_all :: "('h, 'e, 'c) observer \<Rightarrow> (unit, ('h, 'e, 'c) observer) result" where
  "unschedule_all s =
     (let s1 = clear_emitters (s\<lparr> handlers := Map.empty \<rparr>)
      in Return () (s1\<lparr> watches := {} \<rparr>))"

definition on_thread_stop :: "('h, 'e, 'c) observer \<Rightarrow> (unit, ('h, 'e, 'c) observer) result" where
  "on_thread_stop s = unschedule_all s"

text \<open>
  \<^verbatim>\<open>EventDispatcher.stop\<close>: the stop request of the thread, then the sentinel through
  \<^verbatim>\<open>put_nowait\<close>, with \<^verbatim>\<open>queue.Full\<close> suppressed.
\<close>

definition stop :: "('h, 'e, 'c) observer \<Rightarrow> (unit, ('h, 'e, 'c) observer) result" where
  "stop s =
     (let s1 = s\<lparr> thread := thread_stop (thread s) \<rparr>
      in case put_nowait Stop_event (event_queue s1) of
           Return u q \<Rightarrow> Return () (s1\<lparr> event_queue := q \<rparr>)
         | Raise e q \<Rightarrow> (if e = Full then Return () s1 else Raise e s1)
         | Blocks q \<Rightarrow> Blocks s1)"

text \<open>
  \<^verbatim>\<open>dispatch_events\<close>. A handler is a value of \<open>'h\<close>; what its \<^verbatim>\<open>dispatch(event)\<close>
  does to the engine (it may call back into any method of the engine) is the argument
  \<open>hdispatch\<close>. The loop over the snapshot \<^verbatim>\<open>list(self._handlers.get(watch, []))\<close> is
  \<open>dispatch_loop\<close>; it returns, beside the state, the handlers it called, in the order of
  the calls. The order of the snapshot is the order in which Python iterates the set, the
  argument \<open>list_of\<close>.
\<close>

fun dispatch_loop ::
  "('h \<Rightarrow> 'e \<Rightarrow> ('h, 'e, 'c) observer \<Rightarrow> (unit, ('h, 'e, 'c) observer) result) \<Rightarrow> 'e \<Rightarrow> 'c observed_watch \<Rightarrow>
   'h list \<Rightarrow> ('h, 'e, 'c) observer \<Rightarrow> ('h list, ('h, 'e, 'c) observer) result" where
  "dispatch_loop hdispatch event w [] s = Return [] s"
| "dispatch_loop hdispatch event w (h # hs) s =
     (if h \<in> handlers_get s w then
        (case hdispatch h event s of
           Return u s1 \<Rightarrow>
             (case dispatch_loop hdispatch event w hs s1 of
                Return called s2 \<Rightarrow> Return (h # called) s2
              | Raise e s2 \<Rightarrow> Raise e s2
              | Blocks s2 \<Rightarrow> Blocks s2)
         | Raise e s1 \<Rightarrow> Raise e s1
         | Blocks s1 \<Rightarrow> Blocks s1)
      else dispatch_loop hdispatch event w hs s)"

definition dispatch_events ::
  "('h set \<Rightarrow> 'h list) \<Rightarrow> ('h \<Rightarrow> 'e \<Rightarrow> ('h, 'e, 'c) observer \<Rightarrow> (unit, ('h, 'e, 'c) observer) result) \<Rightarrow>
   ('h, 'e, 'c) observer \<Rightarrow> ('h list, ('h, 'e, 'c) observer) result" where
  "dispatch_events list_of hdispatch s =
     (case get True None (event_queue s) of
        Blocks q \<Rightarrow> Blocks s
      | Raise e q \<Rightarrow> Raise e s
      | Return en q \<Rightarrow>
          (let s1 = s\<lparr> event_queue := q \<rparr> in
           case en of
             Stop_event \<Rightarrow> Return [] s1
           | Entry event w \<Rightarrow>
               (case dispatch_loop hdispatch event w (list_of (handlers_get s1 w)) s1 of
                  Return called s2 \<Rightarrow>
                    (case task_done (event_queue s2) of
                       Return u q2 \<Rightarrow> Return called (s2\<lparr> event_queue := q2 \<rparr>)
                     | Raise e q2 \<Rightarrow> Raise e s2
                     | Blocks q2 \<Rightarrow> Blocks s2)
                | Raise e s2 \<Rightarrow> Raise e s2
                | Blocks s2 \<Rightarrow> Blocks s2)))"

text \<open>
  What it means that the handlers of a list are invoked with an event one after the
  other: the \<^verbatim>\<open>dispatch(event)\<close> of each is applied to the state the one before it left,
  and the first call that raises or waits ends the sequence. The definition is not a method
  of the source; the properties of \<open>dispatch_events\<close> are stated against it.
\<close>

fun invoke_all ::
  "('h \<Rightarrow> 'e \<Rightarrow> ('h, 'e, 'c) observer \<Rightarrow> (unit, ('h, 'e, 'c) observer) result) \<Rightarrow> 'e \<Rightarrow>
   'h list \<Rightarrow> ('h, 'e, 'c) observer \<Rightarrow> (unit, ('h, 'e, 'c) observer) result" where
  "invoke_all hdispatch event [] s = Return () s"
| "invoke_all hdispatch event (h # hs) s =
     (case hdispatch h event s of
        Return u s1 \<Rightarrow> invoke_all hdispatch event hs s1
      | Raise e s1 \<Rightarrow> Raise e s1
      | Blocks s1 \<Rightarrow> Blocks s1)"

text \<open>
  \<^verbatim>\<open>EventDispatcher.run\<close>: the loop may go on for ever, so \<open>run\<close> is a partial function
  and \<open>None\<close> is the run that never ends.
\<close>

partial_function (option) run ::
  "('h set \<Rightarrow> 'h list) \<Rightarrow> ('h \<Rightarrow> 'e \<Rightarrow> ('h, 'e, 'c) observer \<Rightarrow> (unit, ('h, 'e, 'c) observer) result) \<Rightarrow>
   ('h, 'e, 'c) observer \<Rightarrow> (unit, ('h, 'e, 'c) observer) result option" where
  "run list_of hdispatch s =
     (if should_keep_running s then
        (case dispatch_events list_of hdispatch s of
           Return called s1 \<Rightarrow> run list_of hdispatch s1
         | Raise e s1 \<Rightarrow> (if e = Empty then run list_of hdispatch s1 else Some (Raise e s1))
         | Blocks s1 \<Rightarrow> Some (Blocks s1))
      else Some (Return () s))"



subsection \<open>Callers and example values\<close>


text \<open>
  The shape of the producer registries that \<^verbatim>\<open>schedule\<close> keeps: the set of producers
  is the range of the producer registry, every producer is registered under its own
  watch, and the registry is finite.
\<close>

definition registry_inv :: "('h, 'e, 'c) observer \<Rightarrow> bool" where
  "registry_inv s =
     (emitters s = ran (emitter_for_watch s) \<and>
      (\<forall>w em. emitter_for_watch s w = Some em \<longrightarrow> em_watch em = w) \<and>
      finite (dom (emitter_for_watch s)))"

text \<open>
  The event classes live in \<^verbatim>\<open>watchdog.events\<close>, which is not under src/. For
  examples: the base class \<^verbatim>\<open>FileSystemEvent\<close> and one subclass of it, an event being a
  pair of its class and its path, and \<^verbatim>\<open>isinstance\<close> over this hierarchy.
\<close>

datatype event_class = FileSystemEvent | FileModifiedEvent

definition issubclass :: "event_class \<Rightarrow> event_class \<Rightarrow> bool" where
  "issubclass c d = (c = d \<or> d = FileSystemEvent)"

definition isinstance_of :: "event_class \<times> string \<Rightarrow> event_class \<Rightarrow> bool" where
  "isinstance_of event cls = issubclass (fst event) cls"

section \<open>Properties\<close>

subsection \<open>The queue\<close>

lemma put_unbounded: "maxsize q = 0 \<Longrightarrow> put x q = Return () (put_item x q)"
  by (simp add: put_def full_def)

lemma maxsize_put_item: "maxsize (put_item x q) = maxsize q"
  by (simp add: put_item_def)

lemma last_item_put_item: "last_item (put_item x q) = Some x"
  by (simp add: put_item_def)

lemma items_put_item:
  "items (put_item x q) = (if last_item q = Some x then items q else items q @ [x])"
  by (simp add: put_item_def)

lemma put_all_items:
  "maxsize q = 0 \<Longrightarrow>
   \<exists>q'. put_all xs q = Return () q' \<and> maxsize q' = 0 \<and>
        items q' = items q @ (case last_item q of None \<Rightarrow> remdups_adj xs
                                | Some l \<Rightarrow> tl (remdups_adj (l # xs))) \<and>
        last_item q' = (if xs = [] then last_item q else Some (last xs))"
proof (induction xs arbitrary: q)
  case Nil
  then show ?case by (simp split: option.splits)
next
  case (Cons x xs)
  have m: "maxsize (put_item x q) = 0" using Cons.prems by (simp add: maxsize_put_item)
  from Cons.IH [OF m] obtain q' where
    q': "put_all xs (put_item x q) = Return () q'" "maxsize q' = 0"
        "items q' = items (put_item x q) @ tl (remdups_adj (x # xs))"
        "last_item q' = (if xs = [] then Some x else Some (last xs))"
    by (auto simp: last_item_put_item)
  have 1: "put_all (x # xs) q = Return () q'"
    using q'(1) Cons.prems by (simp add: put_unbounded)
  have 2: "items q' = items q @ (case last_item q of None \<Rightarrow> remdups_adj (x # xs)
                                | Some l \<Rightarrow> tl (remdups_adj (l # x # xs)))"
  proof (cases "last_item q")
    case None
    then show ?thesis using q'(3) by (simp add: items_put_item)
  next
    case (Some l)
    then show ?thesis using q'(3) by (simp add: items_put_item)
  qed
  show ?case using 1 2 q'(2,4) by simp
qed


text \<open>
  C6. \<^verbatim>\<open>put(entry)\<close> on a queue that is not full appends the entry unless it equals
  the most recently enqueued entry, which is dropped; only the last enqueued entry is
  compared. A sequence of entries put on a fresh queue is stored with every run of equal
  neighbours collapsed to one entry (\<open>remdups_adj\<close>), so \<open>[A, A, A, B, A]\<close> is stored as
  \<open>[A, B, A]\<close>. A read delivers the entry at the front of the stored sequence, so the
  entries are delivered in the order in which they are stored.
\<close>

theorem put_skips_repeats:
  fixes q :: "('e, 'c) event_queue" and x A B :: "('e, 'c) entry" and xs :: "('e, 'c) entry list"
  shows
  "(\<not> full q \<longrightarrow>
      put x q = Return () (put_item x q) \<and>
      items (put_item x q) = (if last_item q = Some x then items q else items q @ [x]) \<and>
      last_item (put_item x q) = Some x) \<and>
   (\<exists>q'. put_all xs EventQueue = Return () q' \<and> items q' = remdups_adj xs) \<and>
   (A \<noteq> B \<longrightarrow>
      (\<exists>q'. put_all [A, A, A, B, A] EventQueue = Return () q' \<and> items q' = [A, B, A])) \<and>
   (items q = x # rest \<longrightarrow> get block tmo q = Return x (q\<lparr> items := rest \<rparr>))"
proof -
  have e: "maxsize (EventQueue :: ('e, 'c) event_queue) = 0"
    by (simp add: EventQueue_def)
  have l: "last_item (EventQueue :: ('e, 'c) event_queue) = None"
    and i: "items (EventQueue :: ('e, 'c) event_queue) = []"
    by (simp_all add: EventQueue_def)
  have 1: "\<not> full q \<longrightarrow>
      put x q = Return () (put_item x q) \<and>
      items (put_item x q) = (if last_item q = Some x then items q else items q @ [x]) \<and>
      last_item (put_item x q) = Some x"
    by (simp add: put_def items_put_item last_item_put_item)
  have 2: "\<exists>q'. put_all ys (EventQueue :: ('e, 'c) event_queue) = Return () q' \<and> items q' = remdups_adj ys" for ys
    using put_all_items [OF e, of ys] by (auto simp: l i)
  have 3: "A \<noteq> B \<longrightarrow>
      (\<exists>q'. put_all [A, A, A, B, A] EventQueue = Return () q' \<and> items q' = [A, B, A])"
    using 2 [of "[A, A, A, B, A]"] by auto
  have 4: "items q = x # rest \<longrightarrow> get block tmo q = Return x (q\<lparr> items := rest \<rparr>)"
    by (simp add: get_def)
  show ?thesis using 1 2 3 4 by blast
qed

theorem put_skips_repeats_witness:
  "\<not> full (EventQueue :: (nat, nat) event_queue) \<and>
   put (Entry (0::nat) (ObservedWatch (Str ''/tmp/a'') False (None :: nat list option))) EventQueue =
     Return () \<lparr> items = [Entry 0 (ObservedWatch (Str ''/tmp/a'') False None)],
                  last_item = Some (Entry 0 (ObservedWatch (Str ''/tmp/a'') False None)),
                  unfinished_tasks = 1, maxsize = 0 \<rparr> \<and>
   Entry (0::nat) (ObservedWatch (Str ''/tmp/a'') False (None :: nat list option)) \<noteq>
     Entry 1 (ObservedWatch (Str ''/tmp/a'') False None) \<and>
   (\<exists>q'. put_all [Entry (0::nat) (ObservedWatch (Str ''/tmp/a'') False (None :: nat list option)),
                    Entry 0 (ObservedWatch (Str ''/tmp/a'') False None),
                    Entry 0 (ObservedWatch (Str ''/tmp/a'') False None),
                    Entry 1 (ObservedWatch (Str ''/tmp/a'') False None),
                    Entry 0 (ObservedWatch (Str ''/tmp/a'') False None)] EventQueue = Return () q' \<and>
         items q' = [Entry 0 (ObservedWatch (Str ''/tmp/a'') False None),
                     Entry 1 (ObservedWatch (Str ''/tmp/a'') False None),
                     Entry 0 (ObservedWatch (Str ''/tmp/a'') False None)]) \<and>
   get True None \<lparr> items = [Entry (0::nat) (ObservedWatch (Str ''/tmp/a'') False (None :: nat list option))],
                    last_item = Some (Entry 0 (ObservedWatch (Str ''/tmp/a'') False None)),
                    unfinished_tasks = 1, maxsize = 0 \<rparr> =
     Return (Entry 0 (ObservedWatch (Str ''/tmp/a'') False None))
       \<lparr> items = [], last_item = Some (Entry 0 (ObservedWatch (Str ''/tmp/a'') False None)),
          unfinished_tasks = 1, maxsize = 0 \<rparr>"
  using put_skips_repeats [of "EventQueue :: (nat, nat) event_queue"
      "Entry (0::nat) (ObservedWatch (Str ''/tmp/a'') False (None :: nat list option))" "[]"
      "Entry (0::nat) (ObservedWatch (Str ''/tmp/a'') False (None :: nat list option))"
      "Entry (1::nat) (ObservedWatch (Str ''/tmp/a'') False (None :: nat list option))"]
    put_skips_repeats [of
      "\<lparr> items = [Entry (0::nat) (ObservedWatch (Str ''/tmp/a'') False (None :: nat list option))],
         last_item = Some (Entry 0 (ObservedWatch (Str ''/tmp/a'') False None)),
         unfinished_tasks = 1, maxsize = 0 \<rparr>"
      "Entry (0::nat) (ObservedWatch (Str ''/tmp/a'') False (None :: nat list option))" "[]"
      "Entry (0::nat) (ObservedWatch (Str ''/tmp/a'') False (None :: nat list option))"
      "Entry (1::nat) (ObservedWatch (Str ''/tmp/a'') False (None :: nat list option))" "[]" True None]
  by (simp add: full_def EventQueue_def put_item_def put_def)

subsection \<open>Evaluation\<close>

lemmas engine_defs =
  ObservedWatch_def EventEmitter_def BaseObserver_def EventQueue_def
  is_alive_def should_keep_running_def thread_is_alive_def thread_should_keep_running_def
  thread_start_def thread_stop_def thread_join_def
  emitter_start_def emitter_stop_def emitter_join_def
  add_emitter_def remove_emitter_def clear_emitters_def handlers_get_def
  priv_add_handler_for_watch_def priv_remove_handlers_for_watch_def
  start_def schedule_def add_handler_for_watch_def remove_handler_for_watch_def
  unschedule_def unschedule_all_def on_thread_stop_def stop_def dispatch_events_def
  full_def put_item_def put_def put_nowait_def get_def task_done_def Let_def

subsection \<open>Lookup failures\<close>

text \<open>
  C7. \<^verbatim>\<open>unschedule\<close> of a watch that has no entry in the producer registry (in
  particular a watch outside the active watch set, when every watch of the registry is in
  that set), and \<^verbatim>\<open>remove_handler_for_watch\<close> for an unknown watch or for a handler that
  is not registered for the watch, raise \<^verbatim>\<open>KeyError\<close> and leave the whole state of the
  engine as it was: the state that comes with the exception is the state of the call.
\<close>

theorem lookup_failure_leaves_state:
  "(emitter_for_watch s w = None \<longrightarrow> unschedule w s = Raise KeyError s) \<and>
   (w \<notin> watches s \<and> dom (emitter_for_watch s) \<subseteq> watches s \<longrightarrow> unschedule w s = Raise KeyError s) \<and>
   (handlers s w = None \<longrightarrow> remove_handler_for_watch h w s = Raise KeyError s) \<and>
   (handlers s w = Some hs \<and> h \<notin> hs \<longrightarrow> remove_handler_for_watch h w s = Raise KeyError s)"
  by (auto simp: unschedule_def remove_handler_for_watch_def split: option.splits)

theorem lookup_failure_leaves_state_witness:
  "emitter_for_watch (BaseObserver (\<lambda>_. None) 1 :: (nat, event_class \<times> string, event_class) observer)
      (ObservedWatch (Str ''/tmp/a'') False None) = None \<and>
   unschedule (ObservedWatch (Str ''/tmp/a'') False None)
      (BaseObserver (\<lambda>_. None) 1 :: (nat, event_class \<times> string, event_class) observer) =
     Raise KeyError (BaseObserver (\<lambda>_. None) 1) \<and>
   (case schedule (1::nat) (Str ''/tmp/a'') False None
           (BaseObserver (\<lambda>_. None) 1 :: (nat, event_class \<times> string, event_class) observer) of
      Return w s \<Rightarrow> handlers s w = Some {1} \<and> remove_handler_for_watch 2 w s = Raise KeyError s \<and>
                       handlers s (ObservedWatch (Str ''/tmp/b'') False None) = None \<and>
                       remove_handler_for_watch 1 (ObservedWatch (Str ''/tmp/b'') False None) s = Raise KeyError s
    | Raise e s \<Rightarrow> False | Blocks s \<Rightarrow> False)"
proof -
  let ?s0 = "BaseObserver (\<lambda>_. None) 1 :: (nat, event_class \<times> string, event_class) observer"
  let ?w = "ObservedWatch (Str ''/tmp/a'') False (None :: event_class list option)"
  let ?w' = "ObservedWatch (Str ''/tmp/b'') False (None :: event_class list option)"
  obtain s where s: "schedule (1::nat) (Str ''/tmp/a'') False None ?s0 = Return ?w s"
    and hs: "handlers s ?w = Some {1}" and hs': "handlers s ?w' = None"
    by (simp add: engine_defs)
  have e: "emitter_for_watch ?s0 ?w = None" by (simp add: BaseObserver_def)
  from lookup_failure_leaves_state [of ?s0 ?w 1 "{}"] e
  have 1: "unschedule ?w ?s0 = Raise KeyError ?s0" by blast
  from lookup_failure_leaves_state [of s ?w 2 "{1}"] hs
  have 2: "remove_handler_for_watch 2 ?w s = Raise KeyError s" by simp
  from lookup_failure_leaves_state [of s ?w' 1 "{}"] hs'
  have 3: "remove_handler_for_watch 1 ?w' s = Raise KeyError s" by simp
  show ?thesis using e 1 2 3 s hs hs' by simp
qed

subsection \<open>Producers\<close>

text \<open>
  C9, as amended. \<^verbatim>\<open>queue_event(event)\<close> puts the pair of the event and the producer's
  watch on the queue when the producer's filter is \<^verbatim>\<open>None\<close> or the event is an instance
  (\<^verbatim>\<open>isinstance\<close>, so of the class itself or of a subclass) of some class of the filter,
  and leaves the queue as it is otherwise. On a queue that is not full the put returns
  with the entry handed to the queue.
\<close>

theorem queue_event_filter:
  "(em_event_filter em = None \<longrightarrow>
      queue_event isinstance em event q = put (Entry event (em_watch em)) q) \<and>
   (em_event_filter em = Some fs \<and> cls \<in> fs \<and> isinstance event cls \<longrightarrow>
      queue_event isinstance em event q = put (Entry event (em_watch em)) q) \<and>
   (em_event_filter em = Some fs \<and> (\<forall>c \<in> fs. \<not> isinstance event c) \<longrightarrow>
      queue_event isinstance em event q = Return () q) \<and>
   (\<not> full q \<longrightarrow> put (Entry event (em_watch em)) q = Return () (put_item (Entry event (em_watch em)) q))"
  by (auto simp: queue_event_def put_def)

theorem queue_event_filter_witness:
  "em_event_filter (EventEmitter 0 (ObservedWatch (Str ''/tmp/a'') False (Some [FileSystemEvent])) 1
       (Some [FileSystemEvent])) = Some {FileSystemEvent} \<and>
   isinstance_of (FileModifiedEvent, ''/tmp/a/f'') FileSystemEvent \<and>
   \<not> full (EventQueue :: (event_class \<times> string, event_class) event_queue) \<and>
   queue_event isinstance_of
     (EventEmitter 0 (ObservedWatch (Str ''/tmp/a'') False (Some [FileSystemEvent])) 1 (Some [FileSystemEvent]))
     (FileModifiedEvent, ''/tmp/a/f'') EventQueue =
   Return () (put_item (Entry (FileModifiedEvent, ''/tmp/a/f'')
                  (ObservedWatch (Str ''/tmp/a'') False (Some [FileSystemEvent]))) EventQueue) \<and>
   em_event_filter (EventEmitter 0 (ObservedWatch (Str ''/tmp/a'') False (Some [FileModifiedEvent])) 1
       (Some [FileModifiedEvent])) = Some {FileModifiedEvent} \<and>
   \<not> isinstance_of (FileSystemEvent, ''/tmp/a/f'') FileModifiedEvent \<and>
   queue_event isinstance_of
     (EventEmitter 0 (ObservedWatch (Str ''/tmp/a'') False (Some [FileModifiedEvent])) 1 (Some [FileModifiedEvent]))
     (FileSystemEvent, ''/tmp/a/f'') (EventQueue :: (event_class \<times> string, event_class) event_queue) =
   Return () EventQueue \<and>
   queue_event isinstance_of
     (EventEmitter 0 (ObservedWatch (Str ''/tmp/a'') False None) 1 (None :: event_class list option))
     (FileSystemEvent, ''/tmp/a/f'') (EventQueue :: (event_class \<times> string, event_class) event_queue) =
   Return () (put_item (Entry (FileSystemEvent, ''/tmp/a/f'')
                  (ObservedWatch (Str ''/tmp/a'') False None)) EventQueue)"
proof -
  let ?q = "EventQueue :: (event_class \<times> string, event_class) event_queue"
  let ?w1 = "ObservedWatch (Str ''/tmp/a'') False (Some [FileSystemEvent])"
  let ?e1 = "EventEmitter 0 ?w1 1 (Some [FileSystemEvent])"
  let ?w2 = "ObservedWatch (Str ''/tmp/a'') False (Some [FileModifiedEvent])"
  let ?e2 = "EventEmitter 0 ?w2 1 (Some [FileModifiedEvent])"
  let ?w3 = "ObservedWatch (Str ''/tmp/a'') False (None :: event_class list option)"
  let ?e3 = "EventEmitter 0 ?w3 1 (None :: event_class list option)"
  have f1: "em_event_filter ?e1 = Some {FileSystemEvent}" by (simp add: EventEmitter_def)
  have f2: "em_event_filter ?e2 = Some {FileModifiedEvent}" by (simp add: EventEmitter_def)
  have f3: "em_event_filter ?e3 = None" by (simp add: EventEmitter_def)
  have w1: "em_watch ?e1 = ?w1" and w3: "em_watch ?e3 = ?w3" by (simp_all add: EventEmitter_def)
  have i1: "isinstance_of (FileModifiedEvent, ''/tmp/a/f'') FileSystemEvent"
    by (simp add: isinstance_of_def issubclass_def)
  have i2: "\<not> isinstance_of (FileSystemEvent, ''/tmp/a/f'') FileModifiedEvent"
    by (simp add: isinstance_of_def issubclass_def)
  have nf: "\<not> full ?q" by (simp add: full_def EventQueue_def)
  have 1: "queue_event isinstance_of ?e1 (FileModifiedEvent, ''/tmp/a/f'') ?q =
           Return () (put_item (Entry (FileModifiedEvent, ''/tmp/a/f'') ?w1) ?q)"
    using queue_event_filter [of ?e1 isinstance_of "(FileModifiedEvent, ''/tmp/a/f'')" ?q
        "{FileSystemEvent}" FileSystemEvent] f1 i1 nf w1 by simp
  have 2: "queue_event isinstance_of ?e2 (FileSystemEvent, ''/tmp/a/f'') ?q = Return () ?q"
    using queue_event_filter [of ?e2 isinstance_of "(FileSystemEvent, ''/tmp/a/f'')" ?q
        "{FileModifiedEvent}" FileModifiedEvent] f2 i2 by simp
  have 3: "queue_event isinstance_of ?e3 (FileSystemEvent, ''/tmp/a/f'') ?q =
           Return () (put_item (Entry (FileSystemEvent, ''/tmp/a/f'') ?w3) ?q)"
    using queue_event_filter [of ?e3 isinstance_of "(FileSystemEvent, ''/tmp/a/f'')" ?q
        "{}" FileSystemEvent] f3 nf w3 by simp
  show ?thesis using f1 f2 i1 i2 nf 1 2 3 by simp
qed

text \<open>
  C9 as stated fails: with the filter \<open>{FileSystemEvent}\<close> an event of the subclass
  \<open>FileModifiedEvent\<close> has a class that is no member of the filter, and is enqueued.
\<close>

theorem queue_event_subclass_counterexample:
  "FileModifiedEvent \<notin> {FileSystemEvent} \<and>
   queue_event isinstance_of
     (EventEmitter 0 (ObservedWatch (Str ''/tmp/a'') False (Some [FileSystemEvent])) 1 (Some [FileSystemEvent]))
     (FileModifiedEvent, ''/tmp/a/f'') EventQueue =
   Return () \<lparr> items = [Entry (FileModifiedEvent, ''/tmp/a/f'')
                            (ObservedWatch (Str ''/tmp/a'') False (Some [FileSystemEvent]))],
                last_item = Some (Entry (FileModifiedEvent, ''/tmp/a/f'')
                            (ObservedWatch (Str ''/tmp/a'') False (Some [FileSystemEvent]))),
                unfinished_tasks = 1, maxsize = 0 \<rparr>"
  by (simp add: queue_event_def EventEmitter_def isinstance_of_def issubclass_def put_def full_def
      put_item_def EventQueue_def)

subsection \<open>Scheduling\<close>

lemma schedule_existing:
  "emitter_for_watch s (ObservedWatch p r ef) = Some em \<Longrightarrow>
   schedule h p r ef s =
     Return (ObservedWatch p r ef)
       ((priv_add_handler_for_watch h (ObservedWatch p r ef) s)
          \<lparr> watches := insert (ObservedWatch p r ef) (watches s) \<rparr>)"
  by (simp add: schedule_def priv_add_handler_for_watch_def Let_def)

lemma schedule_Return:
  "schedule h p r ef s = Return w s' \<Longrightarrow>
   w = ObservedWatch p r ef \<and> emitter_for_watch s' w \<noteq> None \<and> w \<in> watches s' \<and>
   h \<in> handlers_get s' w"
  by (auto simp: schedule_def priv_add_handler_for_watch_def Let_def add_emitter_def
      EventEmitter_def emitter_start_def handlers_get_def
      split: if_splits result.splits option.splits sum.splits)

lemma schedule_twice:
  assumes "schedule h1 p r ef s = Return w1 s1" and "schedule h2 p' r' ef' s1 = Return w2 s2"
    and "w1 = w2"
  shows "emitter_for_watch s2 = emitter_for_watch s1 \<and> emitters s2 = emitters s1"
proof -
  from schedule_Return [OF assms(1)] obtain em where
    "w1 = ObservedWatch p r ef" "emitter_for_watch s1 w1 = Some em" by auto
  moreover from schedule_Return [OF assms(2)] have "w2 = ObservedWatch p' r' ef'" by simp
  ultimately have "emitter_for_watch s1 (ObservedWatch p' r' ef') = Some em"
    using assms(3) by simp
  from schedule_existing [OF this, of h2] assms(2) show ?thesis
    by (auto simp: priv_add_handler_for_watch_def Let_def)
qed

subsection \<open>Watches\<close>

text \<open>
  C10, as amended. \<^verbatim>\<open>ObservedWatch\<close> stores a Path object as its string form and a
  filter as the set of its elements. So a Path object and its string form, with filters
  that have the same elements in any order and with any repetitions, give watches that
  are equal, have equal keys and equal hashes, and under \<^verbatim>\<open>schedule\<close> give one producer:
  the second call leaves the producer registry and the set of producers as they are.
  The watch built from \<^verbatim>\<open>Path(p)\<close> equals the watch built from the string \<open>p\<close> exactly
  when \<^verbatim>\<open>str(Path(p))\<close> is \<open>p\<close>.
\<close>

theorem ObservedWatch_normalizes:
  "path (ObservedWatch (PathObj p) r ef) = p \<and>
   path (ObservedWatch (Str p) r ef) = p \<and>
   event_filter (ObservedWatch pa r (Some f)) = Some (set f) \<and>
   event_filter (ObservedWatch pa r (None :: 'c list option)) = None \<and>
   (set f = set f' \<longrightarrow>
      ObservedWatch (PathObj p) r (Some f) = ObservedWatch (Str p) r (Some f') \<and>
      watch_eq (ObservedWatch (PathObj p) r (Some f)) (ObservedWatch (Str p) r (Some f')) \<and>
      watch_hash py_hash (ObservedWatch (PathObj p) r (Some f)) =
        watch_hash py_hash (ObservedWatch (Str p) r (Some f'))) \<and>
   (ObservedWatch (PathObj p) r (None :: 'c list option) = ObservedWatch (Str p) r None) \<and>
   (ObservedWatch (Path p) r ef = ObservedWatch (Str p) r ef \<longleftrightarrow> pathlib_str p = p) \<and>
   (set f = set f' \<and>
    schedule h1 (PathObj p) r (Some f) (s :: ('h, 'e, 'c) observer) = Return w1 s1 \<and>
    schedule h2 (Str p) r (Some f') s1 = Return w2 s2 \<longrightarrow>
      w1 = w2 \<and> emitter_for_watch s2 = emitter_for_watch s1 \<and> emitters s2 = emitters s1 \<and>
      emitter_for_watch s2 w2 \<noteq> None)"
proof -
  have eq: "set f = set f' \<Longrightarrow>
      ObservedWatch (PathObj p) r (Some f) = ObservedWatch (Str p) r (Some f')"
    by (simp add: ObservedWatch_def)
  have a: "path (ObservedWatch (PathObj p) r ef) = p \<and>
   path (ObservedWatch (Str p) r ef) = p \<and>
   event_filter (ObservedWatch pa r (Some f)) = Some (set f) \<and>
   event_filter (ObservedWatch pa r (None :: 'c list option)) = None"
    by (simp add: ObservedWatch_def)
  have b: "set f = set f' \<longrightarrow>
      ObservedWatch (PathObj p) r (Some f) = ObservedWatch (Str p) r (Some f') \<and>
      watch_eq (ObservedWatch (PathObj p) r (Some f)) (ObservedWatch (Str p) r (Some f')) \<and>
      watch_hash py_hash (ObservedWatch (PathObj p) r (Some f)) =
        watch_hash py_hash (ObservedWatch (Str p) r (Some f'))"
    using eq by (simp add: watch_eq_def watch_hash_def)
  have c: "ObservedWatch (PathObj p) r (None :: 'c list option) = ObservedWatch (Str p) r None"
    by (simp add: ObservedWatch_def)
  have d: "ObservedWatch (Path p) r ef = ObservedWatch (Str p) r ef \<longleftrightarrow> pathlib_str p = p"
    by (simp add: ObservedWatch_def Path_def)
  have e: "set f = set f' \<and>
    schedule h1 (PathObj p) r (Some f) s = Return w1 s1 \<and>
    schedule h2 (Str p) r (Some f') s1 = Return w2 s2 \<longrightarrow>
      w1 = w2 \<and> emitter_for_watch s2 = emitter_for_watch s1 \<and> emitters s2 = emitters s1 \<and>
      emitter_for_watch s2 w2 \<noteq> None"
  proof (intro impI, elim conjE)
    assume f: "set f = set f'"
      and 1: "schedule h1 (PathObj p) r (Some f) s = Return w1 s1"
      and 2: "schedule h2 (Str p) r (Some f') s1 = Return w2 s2"
    have w: "w1 = w2" using schedule_Return [OF 1] schedule_Return [OF 2] eq [OF f] by simp
    from schedule_twice [OF 1 2 w] schedule_Return [OF 2] w
    show "w1 = w2 \<and> emitter_for_watch s2 = emitter_for_watch s1 \<and> emitters s2 = emitters s1 \<and>
      emitter_for_watch s2 w2 \<noteq> None" by auto
  qed
  show ?thesis using a b c d e by blast
qed

theorem ObservedWatch_normalizes_witness:
  "set [FileModifiedEvent, FileSystemEvent, FileModifiedEvent] = set [FileSystemEvent, FileModifiedEvent] \<and>
   ObservedWatch (PathObj ''/tmp/a'') True (Some [FileModifiedEvent, FileSystemEvent, FileModifiedEvent]) =
     ObservedWatch (Str ''/tmp/a'') True (Some [FileSystemEvent, FileModifiedEvent]) \<and>
   pathlib_str ''/tmp/a'' = ''/tmp/a'' \<and>
   ObservedWatch (Path ''/tmp/a'') True (Some [FileSystemEvent]) =
     ObservedWatch (Str ''/tmp/a'') True (Some [FileSystemEvent]) \<and>
   (\<exists>w1 s1 w2 s2.
      schedule (1::nat) (PathObj ''/tmp/a'') True (Some [FileModifiedEvent, FileSystemEvent, FileModifiedEvent])
        (BaseObserver (\<lambda>_. None) 1 :: (nat, event_class \<times> string, event_class) observer) = Return w1 s1 \<and>
      schedule 2 (Str ''/tmp/a'') True (Some [FileSystemEvent, FileModifiedEvent]) s1 = Return w2 s2 \<and>
      w1 = w2 \<and> emitter_for_watch s2 = emitter_for_watch s1 \<and> emitters s2 = emitters s1 \<and>
      emitter_for_watch s2 w2 \<noteq> None)"
proof -
  let ?f = "[FileModifiedEvent, FileSystemEvent, FileModifiedEvent]"
  let ?f' = "[FileSystemEvent, FileModifiedEvent]"
  let ?s0 = "BaseObserver (\<lambda>_. None) 1 :: (nat, event_class \<times> string, event_class) observer"
  have f: "set ?f = set ?f'" by auto
  have n: "pathlib_str ''/tmp/a'' = ''/tmp/a''"
    by (simp add: pathlib_str_def posix_root_def)
  obtain s1 where 1: "schedule (1::nat) (PathObj ''/tmp/a'') True (Some ?f) ?s0 =
      Return (ObservedWatch (PathObj ''/tmp/a'') True (Some ?f)) s1"
    by (simp add: schedule_def BaseObserver_def priv_add_handler_for_watch_def is_alive_def
        thread_is_alive_def Let_def)
  note t = ObservedWatch_normalizes [of "''/tmp/a''" True "Some [FileSystemEvent]" "Str ''/tmp/a''"
      ?f ?f' "\<lambda>_. 0" 1 ?s0 "ObservedWatch (PathObj ''/tmp/a'') True (Some ?f)" s1 2]
  from t f have eq: "ObservedWatch (PathObj ''/tmp/a'') True (Some ?f) =
     ObservedWatch (Str ''/tmp/a'') True (Some ?f')" by blast
  from schedule_Return [OF 1] obtain em where
    "emitter_for_watch s1 (ObservedWatch (Str ''/tmp/a'') True (Some ?f')) = Some em"
    using eq by auto
  from schedule_existing [OF this, of 2] obtain s2 where
    2: "schedule 2 (Str ''/tmp/a'') True (Some ?f') s1 =
          Return (ObservedWatch (Str ''/tmp/a'') True (Some ?f')) s2" by blast
  from t [of "ObservedWatch (Str ''/tmp/a'') True (Some ?f')" s2] f 1 2
  have 3: "emitter_for_watch s2 = emitter_for_watch s1 \<and> emitters s2 = emitters s1 \<and>
      emitter_for_watch s2 (ObservedWatch (Str ''/tmp/a'') True (Some ?f')) \<noteq> None"
    by blast
  from t n have 4: "ObservedWatch (Path ''/tmp/a'') True (Some [FileSystemEvent]) =
     ObservedWatch (Str ''/tmp/a'') True (Some [FileSystemEvent])" by blast
  show ?thesis using f eq n 4 1 2 3 by blast
qed


text \<open>
  C10 as stated fails for a string that \<^verbatim>\<open>pathlib\<close> rewrites: \<^verbatim>\<open>Path("/tmp/a/")\<close>
  has the string form \<^verbatim>\<open>/tmp/a\<close>, so its watch differs from the watch of the string
  \<^verbatim>\<open>/tmp/a/\<close>.
\<close>

theorem ObservedWatch_Path_counterexample:
  "ObservedWatch (Path ''/tmp/a/'') False (None :: event_class list option) \<noteq>
   ObservedWatch (Str ''/tmp/a/'') False None \<and>
   path (ObservedWatch (Path ''/tmp/a/'') False (None :: event_class list option)) = ''/tmp/a''"
  by (simp add: ObservedWatch_def Path_def pathlib_str_def posix_root_def)

subsection \<open>Producers that fail to start\<close>

text \<open>
  C3. On a running engine, when the watch has no producer yet and the \<^verbatim>\<open>start()\<close> of
  the new producer raises, \<^verbatim>\<open>schedule\<close> raises the same exception; the producer
  registry, the set of producers and the active watch set are as before the call, but the
  handler stays attached to the watch in the handler registry: \<^verbatim>\<open>schedule\<close> adds it
  before it starts the producer and has no \<^verbatim>\<open>except\<close> to take it back, as
  \<^verbatim>\<open>start\<close> has. The claim asks for the handler not to be left attached.
\<close>

theorem schedule_start_failure_keeps_handler:
  fixes s :: "('h, 'e, 'c) observer"
  assumes "is_alive s"
    and "emitter_for_watch s (ObservedWatch p r ef) = None"
    and "emitter_class s (EventEmitter (next_id s) (ObservedWatch p r ef) (timeout s) ef) = Some e"
  shows "\<exists>s'. schedule h p r ef s = Raise e s' \<and>
              h \<in> handlers_get s' (ObservedWatch p r ef) \<and>
              emitter_for_watch s' = emitter_for_watch s \<and>
              emitters s' = emitters s \<and> watches s' = watches s"
  using assms
  by (simp add: schedule_def priv_add_handler_for_watch_def Let_def is_alive_def
      emitter_start_def handlers_get_def)

theorem schedule_start_failure_keeps_handler_witness:
  "(case start (\<lambda>_. []) (BaseObserver (\<lambda>_. Some OSError) 1 :: (nat, event_class \<times> string, event_class) observer) of
      Return u s \<Rightarrow>
        is_alive s \<and> watches s = {} \<and> handlers s = Map.empty \<and> emitter_for_watch s = Map.empty \<and>
        (case schedule (1::nat) (Str ''/missing'') False None s of
           Raise e s' \<Rightarrow>
             e = OSError \<and>
             handlers s' (ObservedWatch (Str ''/missing'') False None) = Some {1} \<and>
             emitter_for_watch s' (ObservedWatch (Str ''/missing'') False None) = None \<and>
             emitters s' = {} \<and>
             ObservedWatch (Str ''/missing'') False None \<notin> watches s'
         | Return w s' \<Rightarrow> False
         | Blocks s' \<Rightarrow> False)
    | Raise e s \<Rightarrow> False
    | Blocks s \<Rightarrow> False)"
proof -
  let ?s0 = "BaseObserver (\<lambda>_. Some OSError) 1 :: (nat, event_class \<times> string, event_class) observer"
  let ?w = "ObservedWatch (Str ''/missing'') False (None :: event_class list option)"
  obtain s where s: "start (\<lambda>_. []) ?s0 = Return () s"
    and a: "is_alive s" and e: "emitter_for_watch s = Map.empty" and c: "emitter_class s = (\<lambda>_. Some OSError)"
    and w: "watches s = {}" and h: "handlers s = Map.empty" and es: "emitters s = {}"
    by (simp add: start_def BaseObserver_def thread_start_def is_alive_def thread_is_alive_def)
  from schedule_start_failure_keeps_handler [of s "Str ''/missing''" False None OSError 1] a e c
  obtain s' where s': "schedule (1::nat) (Str ''/missing'') False None s = Raise OSError s'"
    and 1: "1 \<in> handlers_get s' ?w" and 2: "emitter_for_watch s' = emitter_for_watch s"
    and 3: "emitters s' = emitters s" and 4: "watches s' = watches s"
    by auto
  have 5: "handlers s' ?w = Some {1}"
    using s' h a e c
    by (auto simp: schedule_def priv_add_handler_for_watch_def Let_def is_alive_def
      emitter_start_def)
  show ?thesis using s a e w h es s' 2 3 4 5 by simp
qed


text \<open>
  C5. A watch is scheduled on an engine that does not run yet; the watch is in the active
  watch set and in the producer registry. Its producer fails to start, so \<^verbatim>\<open>start\<close>
  removes it with \<^verbatim>\<open>_remove_emitter\<close> and raises: afterwards the producer registry is
  empty and the watch is still in the active watch set, which \<^verbatim>\<open>unschedule\<close> clears
  beside its own \<^verbatim>\<open>_remove_emitter\<close>.
\<close>

theorem start_rollback_keeps_watch:
  "(case schedule (1::nat) (Str ''/missing'') False None
          (BaseObserver (\<lambda>_. Some OSError) 1 :: (nat, event_class \<times> string, event_class) observer) of
      Return w s \<Rightarrow>
        watches s = dom (emitter_for_watch s) \<and> watches s = {w} \<and>
        emitters s = {EventEmitter 0 w 1 None} \<and>
        (case start (\<lambda>_. [EventEmitter 0 w 1 None]) s of
           Raise e s' \<Rightarrow>
             e = OSError \<and> w \<in> watches s' \<and> emitter_for_watch s' w = None \<and>
             dom (emitter_for_watch s') = {} \<and> emitters s' = {} \<and> handlers s' w = Some {1}
         | Return u s' \<Rightarrow> False
         | Blocks s' \<Rightarrow> False)
    | Raise e s \<Rightarrow> False
    | Blocks s \<Rightarrow> False)"
  by (simp add: engine_defs)

subsection \<open>Sequences of schedule calls\<close>



lemma schedule_Raise:
  "schedule h p r ef s = Raise e s' \<Longrightarrow>
   emitter_for_watch s' = emitter_for_watch s \<and> emitters s' = emitters s \<and>
   watches s' = watches s \<and> thread s' = thread s"
  by (auto simp: schedule_def priv_add_handler_for_watch_def Let_def emitter_start_def
      split: if_splits result.splits option.splits sum.splits)

lemma schedule_effect:
  "schedule h p r ef s = Return w s' \<Longrightarrow>
   dom (emitter_for_watch s') = insert w (dom (emitter_for_watch s)) \<and>
   watches s' = insert w (watches s) \<and> thread s' = thread s \<and>
   handlers_get s' w = insert h (handlers_get s w)"
  by (auto simp: schedule_def priv_add_handler_for_watch_def Let_def add_emitter_def
      EventEmitter_def emitter_start_def handlers_get_def
      split: if_splits result.splits option.splits sum.splits)

lemma schedule_idle:
  "\<not> is_alive s \<Longrightarrow> \<exists>s'. schedule h p r ef s = Return (ObservedWatch p r ef) s'"
  by (simp add: schedule_def priv_add_handler_for_watch_def Let_def is_alive_def)














subsection \<open>Dispatching an event\<close>

lemma subseq_mem: "subseq xs ys \<Longrightarrow> x \<in> set xs \<Longrightarrow> x \<in> set ys"
  by (induction xs ys rule: list_emb.induct) auto

lemma subseq_keeps_distinct: "subseq xs ys \<Longrightarrow> distinct ys \<Longrightarrow> distinct xs"
  by (induction xs ys rule: list_emb.induct) (auto dest: subseq_mem)

lemma dispatch_loop_append:
  "dispatch_loop disp ev w (xs @ ys) s =
     (case dispatch_loop disp ev w xs s of
        Return tr1 s1 \<Rightarrow>
          (case dispatch_loop disp ev w ys s1 of
             Return tr2 s2 \<Rightarrow> Return (tr1 @ tr2) s2
           | Raise e s2 \<Rightarrow> Raise e s2
           | Blocks s2 \<Rightarrow> Blocks s2)
      | Raise e s1 \<Rightarrow> Raise e s1
      | Blocks s1 \<Rightarrow> Blocks s1)"
  by (induction xs arbitrary: s) (auto split: result.splits)

lemma dispatch_loop_subseq:
  "dispatch_loop disp ev w hs s = Return tr s' \<Longrightarrow> subseq tr hs"
  by (induction hs arbitrary: s tr) (auto split: if_splits result.splits)

lemma dispatch_loop_total:
  "(\<And>h t. \<exists>t'. disp h ev t = Return () t') \<Longrightarrow> \<exists>tr s'. dispatch_loop disp ev w hs s = Return tr s'"
proof (induction hs arbitrary: s)
  case Nil
  then show ?case by simp
next
  case (Cons h hs)
  show ?case
  proof (cases "h \<in> handlers_get s w")
    case True
    from Cons.prems [of h s] obtain t' where t: "disp h ev s = Return () t'" by blast
    from Cons.IH [OF Cons.prems, of t'] obtain tr s' where "dispatch_loop disp ev w hs t' = Return tr s'"
      by blast
    with t True show ?thesis by simp
  next
    case False
    with Cons.IH [OF Cons.prems, of s] show ?thesis by simp
  qed
qed


lemma dispatch_loop_invokes:
  "dispatch_loop disp ev w hs s = Return called t \<Longrightarrow> invoke_all disp ev called s = Return () t"
proof (induction hs arbitrary: s called)
  case Nil
  then show ?case by simp
next
  case (Cons h hs)
  show ?case
  proof (cases "h \<in> handlers_get s w")
    case False
    with Cons.prems have "dispatch_loop disp ev w hs s = Return called t" by simp
    then show ?thesis by (rule Cons.IH)
  next
    case True
    with Cons.prems obtain s1 tr where
      1: "disp h ev s = Return () s1" and 2: "dispatch_loop disp ev w hs s1 = Return tr t"
      and c: "called = h # tr"
      by (auto split: result.splits)
    from Cons.IH [OF 2] 1 c show ?thesis by simp
  qed
qed

lemma dispatch_loop_turn:
  assumes r: "dispatch_loop disp ev w (pre @ h # post) s = Return called s'"
    and d: "distinct (pre @ h # post)"
  shows "\<exists>tr1 tr2 t. called = tr1 @ tr2 \<and> set tr1 \<subseteq> set pre \<and> set tr2 \<subseteq> set (h # post) \<and>
                    invoke_all disp ev tr1 s = Return () t \<and>
                    (h \<in> set called \<longleftrightarrow> h \<in> handlers_get t w) \<and>
                    (h \<in> handlers_get t w \<longrightarrow> take 1 tr2 = [h])"
proof -
  from r obtain tr1 t tr2 where
    1: "dispatch_loop disp ev w pre s = Return tr1 t"
    and 2: "dispatch_loop disp ev w (h # post) t = Return tr2 s'"
    and tr: "called = tr1 @ tr2"
    by (auto simp: dispatch_loop_append split: result.splits)
  have s1: "set tr1 \<subseteq> set pre" using dispatch_loop_subseq [OF 1] by (auto dest: subseq_mem)
  have s2: "set tr2 \<subseteq> set (h # post)" using dispatch_loop_subseq [OF 2] by (auto dest: subseq_mem)
  have n1: "h \<notin> set tr1" using s1 d by auto
  have i: "invoke_all disp ev tr1 s = Return () t" by (rule dispatch_loop_invokes [OF 1])
  have m: "(h \<in> set tr2 \<longleftrightarrow> h \<in> handlers_get t w) \<and> (h \<in> handlers_get t w \<longrightarrow> take 1 tr2 = [h])"
  proof (cases "h \<in> handlers_get t w")
    case True
    with 2 show ?thesis by (auto split: result.splits)
  next
    case False
    with 2 have "dispatch_loop disp ev w post t = Return tr2 s'" by simp
    from dispatch_loop_subseq [OF this] d have "h \<notin> set tr2"
      by (auto dest: subseq_mem)
    with False show ?thesis by simp
  qed
  have "called = tr1 @ tr2 \<and> set tr1 \<subseteq> set pre \<and> set tr2 \<subseteq> set (h # post) \<and>
                    invoke_all disp ev tr1 s = Return () t \<and>
                    (h \<in> set called \<longleftrightarrow> h \<in> handlers_get t w) \<and>
                    (h \<in> handlers_get t w \<longrightarrow> take 1 tr2 = [h])"
    using tr s1 s2 i m n1 by auto
  then show ?thesis by blast
qed

lemma dispatch_events_Entry:
  assumes "items (event_queue s) = Entry ev w # rest"
  shows "dispatch_events list_of disp s =
     (case dispatch_loop disp ev w (list_of (handlers_get s w))
             (s\<lparr> event_queue := (event_queue s)\<lparr> items := rest \<rparr> \<rparr>) of
        Return called t \<Rightarrow>
          (if unfinished_tasks (event_queue t) = 0 then Raise ValueError t
           else Return called
                  (t\<lparr> event_queue := (event_queue t)\<lparr> unfinished_tasks := unfinished_tasks (event_queue t) - 1 \<rparr> \<rparr>))
      | Raise e t \<Rightarrow> Raise e t
      | Blocks t \<Rightarrow> Blocks t)"
  using assms
  by (simp add: dispatch_events_def get_def task_done_def handlers_get_def Let_def
      split: result.splits)

text \<open>
  C1, as amended. When \<^verbatim>\<open>dispatch_events\<close> reads an entry \<open>(event, watch)\<close> and
  returns, the handlers of the list \<open>called\<close> have been invoked with the event one after
  the other (\<open>invoke_all\<close>), from the state with the entry taken off the queue, and the
  entry has then been marked done (\<open>unfinished_tasks\<close> goes down by one). The handlers
  invoked are a subsequence of the iteration over the handlers registered for the watch
  when the loop began, each invoked once; a handler that is not in that iteration, such
  as one added during the dispatch, is not invoked. A handler \<open>h\<close> of the iteration is
  invoked exactly when it is registered for the watch in the state \<open>t\<close> that the
  invocations before its turn have left, and it is then the next handler invoked: a
  handler that an earlier handler removed is not invoked. When every call of a handler
  returns, the invocations return and \<^verbatim>\<open>task_done\<close> follows them.
\<close>

theorem dispatch_events_delivers:
  fixes s s' :: "('h, 'e, 'c) observer"
  shows
  "(items (event_queue s) = Entry ev w # rest \<and>
    dispatch_events list_of disp s = Return called s' \<and>
    distinct (list_of (handlers_get s w)) \<longrightarrow>
      (\<exists>t. invoke_all disp ev called
              (s\<lparr> event_queue := (event_queue s)\<lparr> items := rest \<rparr> \<rparr>) = Return () t \<and>
           0 < unfinished_tasks (event_queue t) \<and>
           s' = t\<lparr> event_queue := (event_queue t)\<lparr> unfinished_tasks := unfinished_tasks (event_queue t) - 1 \<rparr> \<rparr>) \<and>
      subseq called (list_of (handlers_get s w)) \<and> distinct called \<and>
      (\<forall>pre h post. list_of (handlers_get s w) = pre @ h # post \<longrightarrow>
         (\<exists>tr1 tr2 t. called = tr1 @ tr2 \<and> set tr1 \<subseteq> set pre \<and> set tr2 \<subseteq> set (h # post) \<and>
              invoke_all disp ev tr1
                (s\<lparr> event_queue := (event_queue s)\<lparr> items := rest \<rparr> \<rparr>) = Return () t \<and>
              (h \<in> set called \<longleftrightarrow> h \<in> handlers_get t w) \<and>
              (h \<in> handlers_get t w \<longrightarrow> take 1 tr2 = [h])))) \<and>
   (items (event_queue s) = Entry ev w # rest \<and> (\<forall>h t. \<exists>t'. disp h ev t = Return () t') \<longrightarrow>
      (\<exists>called t. invoke_all disp ev called
              (s\<lparr> event_queue := (event_queue s)\<lparr> items := rest \<rparr> \<rparr>) = Return () t \<and>
           dispatch_events list_of disp s =
             (if unfinished_tasks (event_queue t) = 0 then Raise ValueError t
              else Return called
                  (t\<lparr> event_queue := (event_queue t)\<lparr> unfinished_tasks := unfinished_tasks (event_queue t) - 1 \<rparr> \<rparr>))))"
proof (rule conjI; rule impI)
  let ?s1 = "s\<lparr> event_queue := (event_queue s)\<lparr> items := rest \<rparr> \<rparr>"
  let ?hs = "list_of (handlers_get s w)"
  assume a: "items (event_queue s) = Entry ev w # rest \<and>
    dispatch_events list_of disp s = Return called s' \<and> distinct ?hs"
  then have i: "items (event_queue s) = Entry ev w # rest"
    and r: "dispatch_events list_of disp s = Return called s'" and d: "distinct ?hs" by simp_all
  from r obtain t where
    l: "dispatch_loop disp ev w ?hs ?s1 = Return called t"
    and u: "0 < unfinished_tasks (event_queue t)"
    and s': "s' = t\<lparr> event_queue := (event_queue t)\<lparr> unfinished_tasks := unfinished_tasks (event_queue t) - 1 \<rparr> \<rparr>"
    unfolding dispatch_events_Entry [OF i] by (auto split: result.splits if_splits)
  have inv: "invoke_all disp ev called ?s1 = Return () t" by (rule dispatch_loop_invokes [OF l])
  have sub: "subseq called ?hs" by (rule dispatch_loop_subseq [OF l])
  have dc: "distinct called" using sub d by (rule subseq_keeps_distinct)
  have turn: "\<forall>pre h post. ?hs = pre @ h # post \<longrightarrow>
         (\<exists>tr1 tr2 t. called = tr1 @ tr2 \<and> set tr1 \<subseteq> set pre \<and> set tr2 \<subseteq> set (h # post) \<and>
              invoke_all disp ev tr1 ?s1 = Return () t \<and>
              (h \<in> set called \<longleftrightarrow> h \<in> handlers_get t w) \<and>
              (h \<in> handlers_get t w \<longrightarrow> take 1 tr2 = [h]))"
  proof (intro allI impI)
    fix pre h post assume e: "?hs = pre @ h # post"
    from l d show "\<exists>tr1 tr2 t. called = tr1 @ tr2 \<and> set tr1 \<subseteq> set pre \<and> set tr2 \<subseteq> set (h # post) \<and>
              invoke_all disp ev tr1 ?s1 = Return () t \<and>
              (h \<in> set called \<longleftrightarrow> h \<in> handlers_get t w) \<and>
              (h \<in> handlers_get t w \<longrightarrow> take 1 tr2 = [h])"
      unfolding e by (rule dispatch_loop_turn)
  qed
  have first: "\<exists>t. invoke_all disp ev called ?s1 = Return () t \<and>
           0 < unfinished_tasks (event_queue t) \<and>
           s' = t\<lparr> event_queue := (event_queue t)\<lparr> unfinished_tasks := unfinished_tasks (event_queue t) - 1 \<rparr> \<rparr>"
    using inv u s' by blast
  from first sub dc turn
  show "(\<exists>t. invoke_all disp ev called ?s1 = Return () t \<and>
           0 < unfinished_tasks (event_queue t) \<and>
           s' = t\<lparr> event_queue := (event_queue t)\<lparr> unfinished_tasks := unfinished_tasks (event_queue t) - 1 \<rparr> \<rparr>) \<and>
      subseq called ?hs \<and> distinct called \<and>
      (\<forall>pre h post. ?hs = pre @ h # post \<longrightarrow>
         (\<exists>tr1 tr2 t. called = tr1 @ tr2 \<and> set tr1 \<subseteq> set pre \<and> set tr2 \<subseteq> set (h # post) \<and>
              invoke_all disp ev tr1 ?s1 = Return () t \<and>
              (h \<in> set called \<longleftrightarrow> h \<in> handlers_get t w) \<and>
              (h \<in> handlers_get t w \<longrightarrow> take 1 tr2 = [h])))"
    by (intro conjI)
next
  let ?s1 = "s\<lparr> event_queue := (event_queue s)\<lparr> items := rest \<rparr> \<rparr>"
  let ?hs = "list_of (handlers_get s w)"
  assume a: "items (event_queue s) = Entry ev w # rest \<and> (\<forall>h t. \<exists>t'. disp h ev t = Return () t')"
  then have i: "items (event_queue s) = Entry ev w # rest"
    and tot: "\<And>h t. \<exists>t'. disp h ev t = Return () t'" by simp_all
  from dispatch_loop_total [of disp ev w ?hs ?s1, OF tot] obtain called t where
    l: "dispatch_loop disp ev w ?hs ?s1 = Return called t" by blast
  then have "dispatch_events list_of disp s =
             (if unfinished_tasks (event_queue t) = 0 then Raise ValueError t
              else Return called
                  (t\<lparr> event_queue := (event_queue t)\<lparr> unfinished_tasks := unfinished_tasks (event_queue t) - 1 \<rparr> \<rparr>))"
    unfolding dispatch_events_Entry [OF i] by simp
  with dispatch_loop_invokes [OF l]
  show "\<exists>called t. invoke_all disp ev called ?s1 = Return () t \<and>
           dispatch_events list_of disp s =
             (if unfinished_tasks (event_queue t) = 0 then Raise ValueError t
              else Return called
                  (t\<lparr> event_queue := (event_queue t)\<lparr> unfinished_tasks := unfinished_tasks (event_queue t) - 1 \<rparr> \<rparr>))"
    by blast
qed


theorem dispatch_events_delivers_witness:
  "items (event_queue
      ((BaseObserver (\<lambda>_. None) 1 :: (nat, event_class \<times> string, event_class) observer)
        \<lparr> event_queue := \<lparr> items = [Entry (FileModifiedEvent, ''/tmp/a/f'') (ObservedWatch (Str ''/tmp/a'') False None)],
                            last_item = Some (Entry (FileModifiedEvent, ''/tmp/a/f'') (ObservedWatch (Str ''/tmp/a'') False None)),
                            unfinished_tasks = 1, maxsize = 0 \<rparr>,
          handlers := [ObservedWatch (Str ''/tmp/a'') False None \<mapsto> {1, 2}] \<rparr>)) =
     [Entry (FileModifiedEvent, ''/tmp/a/f'') (ObservedWatch (Str ''/tmp/a'') False None)] \<and>
   sorted_list_of_set {1::nat, 2} = [1, 2] \<and>
   (\<exists>s'. dispatch_events sorted_list_of_set
            (\<lambda>h ev s. if h = 1 \<and> 2 \<in> handlers_get s (ObservedWatch (Str ''/tmp/a'') False None)
                       then remove_handler_for_watch 2 (ObservedWatch (Str ''/tmp/a'') False None) s
                       else Return () s)
            ((BaseObserver (\<lambda>_. None) 1 :: (nat, event_class \<times> string, event_class) observer)
              \<lparr> event_queue := \<lparr> items = [Entry (FileModifiedEvent, ''/tmp/a/f'') (ObservedWatch (Str ''/tmp/a'') False None)],
                            last_item = Some (Entry (FileModifiedEvent, ''/tmp/a/f'') (ObservedWatch (Str ''/tmp/a'') False None)),
                            unfinished_tasks = 1, maxsize = 0 \<rparr>,
                handlers := [ObservedWatch (Str ''/tmp/a'') False None \<mapsto> {1, 2}] \<rparr>) = Return [1] s' \<and>
         handlers_get s' (ObservedWatch (Str ''/tmp/a'') False None) = {1} \<and>
         unfinished_tasks (event_queue s') = 0 \<and> items (event_queue s') = [] \<and>
         (\<exists>t. invoke_all
            (\<lambda>h ev s. if h = 1 \<and> 2 \<in> handlers_get s (ObservedWatch (Str ''/tmp/a'') False None)
                       then remove_handler_for_watch 2 (ObservedWatch (Str ''/tmp/a'') False None) s
                       else Return () s)
            (FileModifiedEvent, ''/tmp/a/f'') [1]
            ((BaseObserver (\<lambda>_. None) 1 :: (nat, event_class \<times> string, event_class) observer)
              \<lparr> event_queue := \<lparr> items = [],
                            last_item = Some (Entry (FileModifiedEvent, ''/tmp/a/f'') (ObservedWatch (Str ''/tmp/a'') False None)),
                            unfinished_tasks = 1, maxsize = 0 \<rparr>,
                handlers := [ObservedWatch (Str ''/tmp/a'') False None \<mapsto> {1, 2}] \<rparr>) = Return () t \<and>
            s' = t\<lparr> event_queue := (event_queue t)\<lparr> unfinished_tasks := unfinished_tasks (event_queue t) - 1 \<rparr> \<rparr>)) \<and>
   (\<exists>tr1 tr2 t. [1::nat] = tr1 @ tr2 \<and> set tr1 \<subseteq> set [1] \<and>
         invoke_all
            (\<lambda>h ev s. if h = 1 \<and> 2 \<in> handlers_get s (ObservedWatch (Str ''/tmp/a'') False None)
                       then remove_handler_for_watch 2 (ObservedWatch (Str ''/tmp/a'') False None) s
                       else Return () s)
            (FileModifiedEvent, ''/tmp/a/f'') tr1
            ((BaseObserver (\<lambda>_. None) 1 :: (nat, event_class \<times> string, event_class) observer)
              \<lparr> event_queue := \<lparr> items = [],
                            last_item = Some (Entry (FileModifiedEvent, ''/tmp/a/f'') (ObservedWatch (Str ''/tmp/a'') False None)),
                            unfinished_tasks = 1, maxsize = 0 \<rparr>,
                handlers := [ObservedWatch (Str ''/tmp/a'') False None \<mapsto> {1, 2}] \<rparr>) = Return () t \<and>
         2 \<notin> handlers_get t (ObservedWatch (Str ''/tmp/a'') False None) \<and> (2::nat) \<notin> set [1])"
proof -
  let ?w = "ObservedWatch (Str ''/tmp/a'') False (None :: event_class list option)"
  let ?ev = "(FileModifiedEvent, ''/tmp/a/f'')"
  let ?q = "\<lparr> items = [Entry ?ev ?w], last_item = Some (Entry ?ev ?w), unfinished_tasks = 1, maxsize = 0 \<rparr>"
  let ?s = "(BaseObserver (\<lambda>_. None) 1 :: (nat, event_class \<times> string, event_class) observer)
              \<lparr> event_queue := ?q, handlers := [?w \<mapsto> {1, 2}] \<rparr>"
  let ?s1 = "(BaseObserver (\<lambda>_. None) 1 :: (nat, event_class \<times> string, event_class) observer)
              \<lparr> event_queue := \<lparr> items = [], last_item = Some (Entry ?ev ?w),
                            unfinished_tasks = 1, maxsize = 0 \<rparr>,
                handlers := [?w \<mapsto> {1, 2}] \<rparr>"
  let ?disp = "\<lambda>h (ev :: event_class \<times> string) (s :: (nat, event_class \<times> string, event_class) observer).
                 if h = 1 \<and> 2 \<in> handlers_get s ?w then remove_handler_for_watch 2 ?w s else Return () s"
  have i: "items (event_queue ?s) = Entry ?ev ?w # []" by simp
  have hs: "handlers_get ?s ?w = {1, 2}" by (simp add: handlers_get_def)
  have so: "sorted_list_of_set {1::nat, 2} = [1, 2]" by simp
  have d: "distinct (sorted_list_of_set (handlers_get ?s ?w))" unfolding hs so by simp
  have sd: "{Suc 0, 2} - {2} = {Suc 0}" by auto
  obtain s' where r: "dispatch_events sorted_list_of_set ?disp ?s = Return [1] s'"
    and h': "handlers_get s' ?w = {1}"
    and u': "unfinished_tasks (event_queue s') = 0" "items (event_queue s') = []"
    unfolding dispatch_events_Entry [OF i] hs so
    by (simp add: handlers_get_def remove_handler_for_watch_def BaseObserver_def EventQueue_def sd)
  have e: "?s\<lparr> event_queue := (event_queue ?s)\<lparr> items := [] \<rparr> \<rparr> = ?s1"
    by (simp add: BaseObserver_def)
  note t = dispatch_events_delivers [of ?s ?ev ?w "[]" sorted_list_of_set ?disp "[1]" s']
  from t i r d have fin: "\<exists>t. invoke_all ?disp ?ev [1]
              (?s\<lparr> event_queue := (event_queue ?s)\<lparr> items := [] \<rparr> \<rparr>) = Return () t \<and>
           0 < unfinished_tasks (event_queue t) \<and>
           s' = t\<lparr> event_queue := (event_queue t)\<lparr> unfinished_tasks := unfinished_tasks (event_queue t) - 1 \<rparr> \<rparr>"
    by blast
  from t i r d have al: "\<forall>pre h post. sorted_list_of_set (handlers_get ?s ?w) = pre @ h # post \<longrightarrow>
         (\<exists>tr1 tr2 t. [1] = tr1 @ tr2 \<and> set tr1 \<subseteq> set pre \<and> set tr2 \<subseteq> set (h # post) \<and>
              invoke_all ?disp ?ev tr1
                (?s\<lparr> event_queue := (event_queue ?s)\<lparr> items := [] \<rparr> \<rparr>) = Return () t \<and>
              (h \<in> set [1] \<longleftrightarrow> h \<in> handlers_get t ?w) \<and>
              (h \<in> handlers_get t ?w \<longrightarrow> take 1 tr2 = [h]))"
    by blast
  have sp: "sorted_list_of_set (handlers_get ?s ?w) = [1] @ 2 # []" unfolding hs so by simp
  from al [rule_format, OF sp]
  have turn: "\<exists>tr1 tr2 t. [1::nat] = tr1 @ tr2 \<and> set tr1 \<subseteq> set [1] \<and>
              invoke_all ?disp ?ev tr1
                (?s\<lparr> event_queue := (event_queue ?s)\<lparr> items := [] \<rparr> \<rparr>) = Return () t \<and>
              2 \<notin> handlers_get t ?w \<and> (2::nat) \<notin> set [1]"
    by auto
  from fin have fin': "\<exists>t. invoke_all ?disp ?ev [1] ?s1 = Return () t \<and>
           s' = t\<lparr> event_queue := (event_queue t)\<lparr> unfinished_tasks := unfinished_tasks (event_queue t) - 1 \<rparr> \<rparr>"
    unfolding e by blast
  from i so r h' u' fin' turn [unfolded e] show ?thesis by blast
qed

text \<open>
  C1 as stated fails in two ways. A handler that the first handler adds for the watch is
  registered at the moment of the second handler's call and is not invoked: its mark is
  not in the queue. And when the call of the first handler raises, the exception leaves
  \<^verbatim>\<open>dispatch_events\<close>: the second handler, still registered, is not invoked, and the
  entry is not marked done.
\<close>

theorem dispatch_events_counterexample:
  "(case dispatch_events sorted_list_of_set
          (\<lambda>h ev s. if h = 1 then add_handler_for_watch 3 (ObservedWatch (Str ''/tmp/a'') False None) s
                     else if h = 3
                     then Return () (s\<lparr> event_queue := put_item (Entry (FileModifiedEvent, ''called 3'')
                                           (ObservedWatch (Str ''/tmp/a'') False None)) (event_queue s) \<rparr>)
                     else Return () s)
          ((BaseObserver (\<lambda>_. None) 1 :: (nat, event_class \<times> string, event_class) observer)
            \<lparr> event_queue := \<lparr> items = [Entry (FileModifiedEvent, ''/tmp/a/f'') (ObservedWatch (Str ''/tmp/a'') False None)],
                            last_item = Some (Entry (FileModifiedEvent, ''/tmp/a/f'') (ObservedWatch (Str ''/tmp/a'') False None)),
                            unfinished_tasks = 1, maxsize = 0 \<rparr>,
              handlers := [ObservedWatch (Str ''/tmp/a'') False None \<mapsto> {1, 2}] \<rparr>) of
      Return called s' \<Rightarrow>
        called = [1, 2] \<and> 3 \<notin> set called \<and> items (event_queue s') = [] \<and>
        handlers_get s' (ObservedWatch (Str ''/tmp/a'') False None) = {1, 2, 3}
    | Raise e s' \<Rightarrow> False
    | Blocks s' \<Rightarrow> False) \<and>
   (case invoke_all
          (\<lambda>h ev s. if h = 1 then add_handler_for_watch 3 (ObservedWatch (Str ''/tmp/a'') False None) s
                     else if h = 3
                     then Return () (s\<lparr> event_queue := put_item (Entry (FileModifiedEvent, ''called 3'')
                                           (ObservedWatch (Str ''/tmp/a'') False None)) (event_queue s) \<rparr>)
                     else Return () s)
          (FileModifiedEvent, ''/tmp/a/f'') [1]
          ((BaseObserver (\<lambda>_. None) 1 :: (nat, event_class \<times> string, event_class) observer)
            \<lparr> event_queue := \<lparr> items = [],
                            last_item = Some (Entry (FileModifiedEvent, ''/tmp/a/f'') (ObservedWatch (Str ''/tmp/a'') False None)),
                            unfinished_tasks = 1, maxsize = 0 \<rparr>,
              handlers := [ObservedWatch (Str ''/tmp/a'') False None \<mapsto> {1, 2}] \<rparr>) of
      Return u t \<Rightarrow> 3 \<in> handlers_get t (ObservedWatch (Str ''/tmp/a'') False None)
    | Raise e t \<Rightarrow> False
    | Blocks t \<Rightarrow> False) \<and>
   (case dispatch_events sorted_list_of_set
          (\<lambda>h ev s. if h = 1 then Raise OSError s
                     else Return () (s\<lparr> event_queue := put_item (Entry (FileModifiedEvent, ''called 2'')
                                           (ObservedWatch (Str ''/tmp/a'') False None)) (event_queue s) \<rparr>))
          ((BaseObserver (\<lambda>_. None) 1 :: (nat, event_class \<times> string, event_class) observer)
            \<lparr> event_queue := \<lparr> items = [Entry (FileModifiedEvent, ''/tmp/a/f'') (ObservedWatch (Str ''/tmp/a'') False None)],
                            last_item = Some (Entry (FileModifiedEvent, ''/tmp/a/f'') (ObservedWatch (Str ''/tmp/a'') False None)),
                            unfinished_tasks = 1, maxsize = 0 \<rparr>,
              handlers := [ObservedWatch (Str ''/tmp/a'') False None \<mapsto> {1, 2}] \<rparr>) of
      Raise e s' \<Rightarrow>
        e = OSError \<and> 2 \<in> handlers_get s' (ObservedWatch (Str ''/tmp/a'') False None) \<and>
        items (event_queue s') = [] \<and> unfinished_tasks (event_queue s') = 1
    | Return called s' \<Rightarrow> False
    | Blocks s' \<Rightarrow> False)"
proof -
  have so: "sorted_list_of_set {Suc 0, 2} = [Suc 0, 2]" by simp
  have a: "insert 3 {Suc 0, 2} = {Suc 0, 2, 3}" by auto
  show ?thesis by (simp add: engine_defs so a)
qed

subsection \<open>The order of the handlers\<close>

lemma schedule_event_queue:
  "schedule h p r ef s = Return w s' \<Longrightarrow> event_queue s' = event_queue s"
  by (auto simp: schedule_def priv_add_handler_for_watch_def Let_def add_emitter_def
      emitter_start_def
      split: if_splits result.splits option.splits sum.splits)

lemma dispatch_loop_stable:
  assumes "\<And>h t. \<exists>t'. disp h ev t = Return () t' \<and> handlers t' = handlers t"
  shows "\<exists>s'. dispatch_loop disp ev w hs s = Return (filter (\<lambda>h. h \<in> handlers_get s w) hs) s' \<and>
              handlers s' = handlers s"
proof (induction hs arbitrary: s)
  case Nil
  show ?case by simp
next
  case (Cons h hs)
  show ?case
  proof (cases "h \<in> handlers_get s w")
    case True
    from assms [of h s] obtain t' where
      t: "disp h ev s = Return () t'" "handlers t' = handlers s"
      by blast
    have g: "handlers_get t' w = handlers_get s w" using t(2) by (simp add: handlers_get_def)
    from Cons.IH [of t'] obtain s' where
      "dispatch_loop disp ev w hs t' = Return (filter (\<lambda>h. h \<in> handlers_get t' w) hs) s'"
      "handlers s' = handlers t'" by blast
    with t g True show ?thesis by simp
  next
    case False
    with Cons.IH [of s] show ?thesis by simp
  qed
qed

text \<open>
  C8, as amended. A watch is scheduled on a fresh engine with the handler \<open>h1\<close> and then
  with \<open>h2\<close>, and one event for it is delivered. When the calls of the handlers return
  and leave the handler registry as it is, \<^verbatim>\<open>dispatch_events\<close> invokes the handlers in
  the order in which the set \<open>{h1, h2}\<close> is iterated: the state it ends in is the state
  that the invocations of that list, one after the other, leave (with the entry marked
  done), and both handlers are in the list, each once. The handlers are kept in a Python
  \<^verbatim>\<open>set\<close>, so the order is the order of the set and not the order of the
  \<^verbatim>\<open>schedule\<close> calls.
\<close>

theorem dispatch_order_is_set_order:
  fixes s1 s2 :: "('h, 'e, 'c) observer"
  shows
  "schedule h1 p r ef (BaseObserver ec tmo) = Return w s1 \<and>
   schedule h2 p r ef s1 = Return w' s2 \<and>
   (\<forall>h t. \<exists>t'. disp h ev t = Return () t' \<and> handlers t' = handlers t) \<and>
   set (list_of {h1, h2}) = {h1, h2} \<and> distinct (list_of {h1, h2}) \<longrightarrow>
     w' = w \<and>
     (\<exists>t. invoke_all disp ev (list_of {h1, h2})
             (s2\<lparr> event_queue := (put_item (Entry ev w) (event_queue s2))\<lparr> items := [] \<rparr> \<rparr>) = Return () t \<and>
          dispatch_events list_of disp
              (s2\<lparr> event_queue := put_item (Entry ev w) (event_queue s2) \<rparr>) =
            (if unfinished_tasks (event_queue t) = 0 then Raise ValueError t
             else Return (list_of {h1, h2})
                    (t\<lparr> event_queue := (event_queue t)\<lparr> unfinished_tasks := unfinished_tasks (event_queue t) - 1 \<rparr> \<rparr>))) \<and>
     h1 \<in> set (list_of {h1, h2}) \<and> h2 \<in> set (list_of {h1, h2}) \<and>
     length (filter (\<lambda>h. h = h1) (list_of {h1, h2})) = 1 \<and>
     length (filter (\<lambda>h. h = h2) (list_of {h1, h2})) = 1"
proof (rule impI, elim conjE)
  let ?s0 = "BaseObserver ec tmo :: ('h, 'e, 'c) observer"
  assume 1: "schedule h1 p r ef ?s0 = Return w s1"
    and 2: "schedule h2 p r ef s1 = Return w' s2"
    and st: "\<forall>h t. \<exists>t'. disp h ev t = Return () t' \<and> handlers t' = handlers t"
    and se: "set (list_of {h1, h2}) = {h1, h2}" and di: "distinct (list_of {h1, h2})"
  have w: "w = ObservedWatch p r ef" "w' = w"
    using schedule_Return [OF 1] schedule_Return [OF 2] by auto
  have "handlers_get ?s0 w = {}" by (simp add: handlers_get_def BaseObserver_def)
  then have g1: "handlers_get s1 w = {h1}" using schedule_effect [OF 1] by simp
  have g2: "handlers_get s2 w = {h1, h2}" using schedule_effect [OF 2] g1 w by auto
  have q: "event_queue s2 = EventQueue"
    using schedule_event_queue [OF 1] schedule_event_queue [OF 2] by (simp add: BaseObserver_def)
  let ?s3 = "s2\<lparr> event_queue := put_item (Entry ev w) (event_queue s2) \<rparr>"
  let ?s4 = "?s3\<lparr> event_queue := (event_queue ?s3)\<lparr> items := [] \<rparr> \<rparr>"
  let ?s4' = "s2\<lparr> event_queue := (put_item (Entry ev w) (event_queue s2))\<lparr> items := [] \<rparr> \<rparr>"
  have e4: "?s4 = ?s4'" by simp
  have i: "items (event_queue ?s3) = Entry ev w # []"
    by (simp add: q put_item_def EventQueue_def)
  have g3: "handlers_get ?s3 w = {h1, h2}" "handlers_get ?s4 w = {h1, h2}"
    using g2 by (simp_all add: handlers_get_def)
  from dispatch_loop_stable [of disp ev w "list_of {h1, h2}" ?s4] st obtain t where
    l: "dispatch_loop disp ev w (list_of {h1, h2}) ?s4 =
          Return (filter (\<lambda>h. h \<in> handlers_get ?s4 w) (list_of {h1, h2})) t"
    by blast
  have f: "filter (\<lambda>h. h \<in> handlers_get ?s4 w) (list_of {h1, h2}) = list_of {h1, h2}"
    unfolding g3 using se by (simp add: filter_id_conv)
  have l': "dispatch_loop disp ev w (list_of {h1, h2}) ?s4 = Return (list_of {h1, h2}) t"
    using l unfolding f .
  have inv: "invoke_all disp ev (list_of {h1, h2}) ?s4' = Return () t"
    using dispatch_loop_invokes [OF l'] unfolding e4 .
  have de: "dispatch_events list_of disp ?s3 =
            (if unfinished_tasks (event_queue t) = 0 then Raise ValueError t
             else Return (list_of {h1, h2})
                    (t\<lparr> event_queue := (event_queue t)\<lparr> unfinished_tasks := unfinished_tasks (event_queue t) - 1 \<rparr> \<rparr>))"
    unfolding dispatch_events_Entry [OF i] g3 using l' by simp
  have ex: "\<exists>t. invoke_all disp ev (list_of {h1, h2}) ?s4' = Return () t \<and>
          dispatch_events list_of disp ?s3 =
            (if unfinished_tasks (event_queue t) = 0 then Raise ValueError t
             else Return (list_of {h1, h2})
                    (t\<lparr> event_queue := (event_queue t)\<lparr> unfinished_tasks := unfinished_tasks (event_queue t) - 1 \<rparr> \<rparr>))"
    using inv de by blast
  have c1: "length (filter (\<lambda>h. h = h1) (list_of {h1, h2})) = 1"
    and c2: "length (filter (\<lambda>h. h = h2) (list_of {h1, h2})) = 1"
    using se di by (simp_all add: distinct_length_filter)
  have m: "h1 \<in> set (list_of {h1, h2})" "h2 \<in> set (list_of {h1, h2})" using se by simp_all
  from w(2) ex m c1 c2
  show "w' = w \<and>
     (\<exists>t. invoke_all disp ev (list_of {h1, h2}) ?s4' = Return () t \<and>
          dispatch_events list_of disp ?s3 =
            (if unfinished_tasks (event_queue t) = 0 then Raise ValueError t
             else Return (list_of {h1, h2})
                    (t\<lparr> event_queue := (event_queue t)\<lparr> unfinished_tasks := unfinished_tasks (event_queue t) - 1 \<rparr> \<rparr>))) \<and>
     h1 \<in> set (list_of {h1, h2}) \<and> h2 \<in> set (list_of {h1, h2}) \<and>
     length (filter (\<lambda>h. h = h1) (list_of {h1, h2})) = 1 \<and>
     length (filter (\<lambda>h. h = h2) (list_of {h1, h2})) = 1"
    by (intro conjI)
qed

theorem dispatch_order_is_set_order_witness:
  "\<exists>w s1 s2.
      schedule (1::nat) (Str ''/tmp/a'') False None
        (BaseObserver (\<lambda>_. None) 1 :: (nat, event_class \<times> string, event_class) observer) = Return w s1 \<and>
      schedule 2 (Str ''/tmp/a'') False None s1 = Return w s2 \<and>
      set (sorted_list_of_set {1::nat, 2}) = {1, 2} \<and> distinct (sorted_list_of_set {1::nat, 2}) \<and>
      (\<exists>t. invoke_all (\<lambda>h ev s. Return () (s\<lparr> next_id := Suc (next_id s) \<rparr>))
               (FileModifiedEvent, ''/tmp/a/f'') [1, 2]
               (s2\<lparr> event_queue := (put_item (Entry (FileModifiedEvent, ''/tmp/a/f'') w) (event_queue s2))\<lparr> items := [] \<rparr> \<rparr>) =
             Return () t \<and>
           next_id t = Suc (Suc (next_id s2)) \<and>
           dispatch_events sorted_list_of_set (\<lambda>h ev s. Return () (s\<lparr> next_id := Suc (next_id s) \<rparr>))
               (s2\<lparr> event_queue := put_item (Entry (FileModifiedEvent, ''/tmp/a/f'') w) (event_queue s2) \<rparr>) =
             Return [1, 2]
               (t\<lparr> event_queue := (event_queue t)\<lparr> unfinished_tasks := unfinished_tasks (event_queue t) - 1 \<rparr> \<rparr>))"
proof -
  let ?s0 = "BaseObserver (\<lambda>_. None) 1 :: (nat, event_class \<times> string, event_class) observer"
  let ?w = "ObservedWatch (Str ''/tmp/a'') False (None :: event_class list option)"
  let ?ev = "(FileModifiedEvent, ''/tmp/a/f'')"
  let ?disp = "\<lambda>(h :: nat) (ev :: event_class \<times> string) (s :: (nat, event_class \<times> string, event_class) observer).
                 Return () (s\<lparr> next_id := Suc (next_id s) \<rparr>) :: (unit, (nat, event_class \<times> string, event_class) observer) result"
  have i: "\<not> is_alive ?s0" by (simp add: is_alive_def thread_is_alive_def BaseObserver_def)
  from schedule_idle [OF i] obtain s1 where
    1: "schedule (1::nat) (Str ''/tmp/a'') False None ?s0 = Return ?w s1" by blast
  have "\<not> is_alive s1" using schedule_effect [OF 1] i by (simp add: is_alive_def)
  from schedule_idle [OF this] obtain s2 where
    2: "schedule (2::nat) (Str ''/tmp/a'') False None s1 = Return ?w s2" by blast
  have q: "event_queue s2 = EventQueue"
    using schedule_event_queue [OF 1] schedule_event_queue [OF 2] by (simp add: BaseObserver_def)
  have so: "sorted_list_of_set {1::nat, 2} = [1, 2]" by simp
  have se: "set (sorted_list_of_set {1::nat, 2}) = {1, 2}"
    and di: "distinct (sorted_list_of_set {1::nat, 2})" by simp_all
  have st: "\<forall>h t. \<exists>t'. ?disp h ?ev t = Return () t' \<and> handlers t' = handlers t" by simp
  let ?s4 = "s2\<lparr> event_queue := (put_item (Entry ?ev ?w) (event_queue s2))\<lparr> items := [] \<rparr> \<rparr>"
  from dispatch_order_is_set_order [of 1 "Str ''/tmp/a''" False None "\<lambda>_. None" 1 ?w s1 2 ?w s2
      ?disp ?ev sorted_list_of_set] 1 2 st se di
  obtain t where inv: "invoke_all ?disp ?ev (sorted_list_of_set {1, 2}) ?s4 = Return () t"
    and de: "dispatch_events sorted_list_of_set ?disp
               (s2\<lparr> event_queue := put_item (Entry ?ev ?w) (event_queue s2) \<rparr>) =
            (if unfinished_tasks (event_queue t) = 0 then Raise ValueError t
             else Return (sorted_list_of_set {1, 2})
                    (t\<lparr> event_queue := (event_queue t)\<lparr> unfinished_tasks := unfinished_tasks (event_queue t) - 1 \<rparr> \<rparr>))"
    by blast
  from inv have t: "t = ?s4\<lparr> next_id := Suc (Suc (next_id s2)) \<rparr>"
    unfolding so by simp
  then have u: "unfinished_tasks (event_queue t) \<noteq> 0" and n: "next_id t = Suc (Suc (next_id s2))"
    by (simp_all add: q put_item_def EventQueue_def)
  from de u have de': "dispatch_events sorted_list_of_set ?disp
               (s2\<lparr> event_queue := put_item (Entry ?ev ?w) (event_queue s2) \<rparr>) =
             Return [1, 2]
               (t\<lparr> event_queue := (event_queue t)\<lparr> unfinished_tasks := unfinished_tasks (event_queue t) - 1 \<rparr> \<rparr>)"
    unfolding so by simp
  from inv [unfolded so] n de' have "\<exists>t. invoke_all ?disp ?ev [1, 2] ?s4 = Return () t \<and>
           next_id t = Suc (Suc (next_id s2)) \<and>
           dispatch_events sorted_list_of_set ?disp
               (s2\<lparr> event_queue := put_item (Entry ?ev ?w) (event_queue s2) \<rparr>) =
             Return [1, 2]
               (t\<lparr> event_queue := (event_queue t)\<lparr> unfinished_tasks := unfinished_tasks (event_queue t) - 1 \<rparr> \<rparr>)"
    by blast
  with 1 2 se di show ?thesis by blast
qed

text \<open>
  C8 as stated fails. Python iterates a set in the order of its hash table, and a handler
  object is hashed by its identity. With two handlers whose places in the table are 2 and
  1, ascending places being the order of the iteration, the handler scheduled first is
  invoked second: each handler puts its mark on the queue when it is invoked, and the mark
  of the second handler scheduled comes first.
\<close>

theorem dispatch_order_counterexample:
  "(case schedule (2::nat) (Str ''/tmp/a'') False None
          (BaseObserver (\<lambda>_. None) 1 :: (nat, event_class \<times> string, event_class) observer) of
      Return w s1 \<Rightarrow>
        (case schedule 1 (Str ''/tmp/a'') False None s1 of
           Return w' s2 \<Rightarrow>
             w' = w \<and> handlers s2 w = Some {1, 2} \<and>
             (case dispatch_events sorted_list_of_set
                     (\<lambda>h ev s. Return () (s\<lparr> event_queue :=
                         put_item (Entry (FileModifiedEvent, if h = 2 then ''called H1'' else ''called H2'') w)
                           (event_queue s) \<rparr>))
                     (s2\<lparr> event_queue := put_item (Entry (FileModifiedEvent, ''/tmp/a/f'') w) (event_queue s2) \<rparr>) of
                Return called s' \<Rightarrow>
                  called = [1, 2] \<and>
                  items (event_queue s') = [Entry (FileModifiedEvent, ''called H2'') w,
                                            Entry (FileModifiedEvent, ''called H1'') w]
              | Raise e s' \<Rightarrow> False
              | Blocks s' \<Rightarrow> False)
         | Raise e s2 \<Rightarrow> False
         | Blocks s2 \<Rightarrow> False)
    | Raise e s1 \<Rightarrow> False
    | Blocks s1 \<Rightarrow> False)"
proof -
  have a: "{1::nat, 2} = {2, 1}" and b: "insert (Suc 0) {2} = {Suc 0, 2}" by auto
  have so: "sorted_list_of_set {Suc 0, 2} = [Suc 0, 2]" by simp
  show ?thesis by (simp add: engine_defs a so insert_commute)
qed

subsection \<open>The queue read of the consumer\<close>

lemma dispatch_events_empty:
  "items (event_queue s) = [] \<Longrightarrow> dispatch_events list_of disp s = Blocks s"
  by (simp add: dispatch_events_def get_def)

text \<open>
  C2. \<^verbatim>\<open>dispatch_events\<close> reads the queue with \<^verbatim>\<open>get(block=True)\<close> and no timeout.
  On an empty queue the call signals no \<^verbatim>\<open>queue.Empty\<close>: it waits for an entry, and so
  does the run loop, whatever the engine's timeout, although a read with that timeout
  signals \<^verbatim>\<open>queue.Empty\<close>. The docstring of the method that \<^verbatim>\<open>dispatch_events\<close>
  overrides asks for a read that blocks for the timeout and then raises
  \<^verbatim>\<open>queue.Empty\<close>, and \<^verbatim>\<open>run\<close> catches that exception.
\<close>

theorem dispatch_events_empty_queue_waits:
  fixes s :: "('h, 'e, 'c) observer"
  shows
  "items (event_queue s) = [] \<longrightarrow>
     dispatch_events list_of disp s = Blocks s \<and>
     dispatch_events list_of disp s \<noteq> Raise Empty s \<and>
     get True (Some (timeout s)) (event_queue s) = Raise Empty (event_queue s) \<and>
     (should_keep_running s \<longrightarrow> run list_of disp s = Some (Blocks s))"
proof
  assume e: "items (event_queue s) = []"
  have 1: "dispatch_events list_of disp s = Blocks s" by (rule dispatch_events_empty [OF e])
  have 2: "should_keep_running s \<longrightarrow> run list_of disp s = Some (Blocks s)"
    by (subst run.simps) (simp add: 1)
  have 3: "get True (Some (timeout s)) (event_queue s) = Raise Empty (event_queue s)"
    using e by (simp add: get_def)
  from 1 2 3 show "dispatch_events list_of disp s = Blocks s \<and>
     dispatch_events list_of disp s \<noteq> Raise Empty s \<and>
     get True (Some (timeout s)) (event_queue s) = Raise Empty (event_queue s) \<and>
     (should_keep_running s \<longrightarrow> run list_of disp s = Some (Blocks s))" by simp
qed

theorem dispatch_events_empty_queue_waits_witness:
  "(case start (\<lambda>_. []) (BaseObserver (\<lambda>_. None) (1/10) :: (nat, event_class \<times> string, event_class) observer) of
      Return u s \<Rightarrow>
        is_alive s \<and> should_keep_running s \<and> timeout s = 1/10 \<and> items (event_queue s) = [] \<and>
        dispatch_events sorted_list_of_set (\<lambda>h ev s. Return () s) s = Blocks s \<and>
        dispatch_events sorted_list_of_set (\<lambda>h ev s. Return () s) s \<noteq> Raise Empty s \<and>
        run sorted_list_of_set (\<lambda>h ev s. Return () s) s = Some (Blocks s)
    | Raise e s \<Rightarrow> False
    | Blocks s \<Rightarrow> False)"
proof -
  let ?s0 = "BaseObserver (\<lambda>_. None) (1/10) :: (nat, event_class \<times> string, event_class) observer"
  let ?d = "\<lambda>(h :: nat) (ev :: event_class \<times> string) (s :: (nat, event_class \<times> string, event_class) observer).
              Return () s :: (unit, (nat, event_class \<times> string, event_class) observer) result"
  obtain s where s: "start (\<lambda>_. []) ?s0 = Return () s"
    and a: "is_alive s" and k: "should_keep_running s" and t: "timeout s = 1/10"
    and e: "items (event_queue s) = []"
    by (simp add: start_def BaseObserver_def EventQueue_def thread_start_def is_alive_def
        thread_is_alive_def should_keep_running_def thread_should_keep_running_def)
  from dispatch_events_empty_queue_waits [of s sorted_list_of_set ?d] e k
  have "dispatch_events sorted_list_of_set ?d s = Blocks s \<and>
        dispatch_events sorted_list_of_set ?d s \<noteq> Raise Empty s \<and>
        run sorted_list_of_set ?d s = Some (Blocks s)" by blast
  with s a k t e show ?thesis by simp
qed

subsection \<open>The watch set under the other operations\<close>

lemma remove_emitter_registered:
  assumes "registry_inv s" and "emitter_for_watch s w = Some em"
  shows "\<exists>s'. remove_emitter em s = Return () s' \<and>
              emitter_for_watch s' = (emitter_for_watch s)(w := None) \<and>
              emitters s' = emitters s - {em} \<and> watches s' = watches s \<and> handlers s' = handlers s"
proof -
  have w: "em_watch em = w" and m: "em \<in> emitters s"
    using assms by (auto simp: registry_inv_def ran_def)
  show ?thesis
    using assms(2) w m
    by (simp add: remove_emitter_def Let_def emitter_join_def emitter_stop_def thread_join_def
        split: sum.splits)
qed

text \<open>
  On an engine whose active watch set is the set of keys of the producer registry (and
  whose producer registries have the shape \<open>registry_inv\<close>), \<^verbatim>\<open>schedule\<close>, returning or
  raising, \<^verbatim>\<open>unschedule\<close>, \<^verbatim>\<open>unschedule_all\<close> and a \<^verbatim>\<open>start\<close> that returns keep the
  two equal, and an \<^verbatim>\<open>unschedule\<close> that raises leaves the engine as it was. The
  rollback of \<^verbatim>\<open>start\<close> is the one path that separates them.
\<close>

lemma watch_set_other_operations:
  fixes s :: "('h, 'e, 'c) observer"
  assumes i: "watches s = dom (emitter_for_watch s)" and r: "registry_inv s"
  shows "(schedule h p rc ef s = Return w s1 \<longrightarrow> watches s1 = dom (emitter_for_watch s1))"
    and "(schedule h p rc ef s = Raise e s1 \<longrightarrow> watches s1 = dom (emitter_for_watch s1))"
    and "(unschedule w s = Return () s1 \<longrightarrow> watches s1 = dom (emitter_for_watch s1))"
    and "(unschedule w s = Raise e s1 \<longrightarrow> s1 = s)"
    and "(unschedule_all s = Return () s1 \<longrightarrow> watches s1 = dom (emitter_for_watch s1))"
    and "(start list_of s = Return () s1 \<longrightarrow> watches s1 = dom (emitter_for_watch s1))"
proof -
  show "schedule h p rc ef s = Return w s1 \<longrightarrow> watches s1 = dom (emitter_for_watch s1)"
    using schedule_effect [of h p rc ef s w s1] i by auto
  show "schedule h p rc ef s = Raise e s1 \<longrightarrow> watches s1 = dom (emitter_for_watch s1)"
    using schedule_Raise [of h p rc ef s e s1] i by auto
  show "unschedule_all s = Return () s1 \<longrightarrow> watches s1 = dom (emitter_for_watch s1)"
    by (auto simp: unschedule_all_def clear_emitters_def Let_def)
  have u: "unschedule w s = Return () s1 \<longrightarrow> watches s1 = dom (emitter_for_watch s1)"
    and u': "unschedule w s = Raise e s1 \<longrightarrow> s1 = s"
  proof -
    show "unschedule w s = Return () s1 \<longrightarrow> watches s1 = dom (emitter_for_watch s1)"
    proof (cases "emitter_for_watch s w")
      case None
      then show ?thesis by (simp add: unschedule_def)
    next
      case (Some em)
      show ?thesis
      proof (cases "handlers s w")
        case None
        with Some show ?thesis by (simp add: unschedule_def)
      next
        case (Some hs)
        let ?s0 = "s\<lparr> handlers := (handlers s)(w := None) \<rparr>"
        have r0: "registry_inv ?s0" using r by (simp add: registry_inv_def)
        have e0: "emitter_for_watch ?s0 w = Some em" using \<open>emitter_for_watch s w = Some em\<close> by simp
        from remove_emitter_registered [OF r0 e0] obtain s2 where
          2: "remove_emitter em ?s0 = Return () s2"
             "emitter_for_watch s2 = (emitter_for_watch s)(w := None)" "watches s2 = watches s"
          by auto
        have "w \<in> watches s2" using 2(3) i \<open>emitter_for_watch s w = Some em\<close> by auto
        then show ?thesis
          using \<open>emitter_for_watch s w = Some em\<close> Some 2 i
          by (auto simp: unschedule_def split: if_splits)
      qed
    qed
    show "unschedule w s = Raise e s1 \<longrightarrow> s1 = s"
    proof (cases "emitter_for_watch s w")
      case None
      then show ?thesis by (simp add: unschedule_def)
    next
      case (Some em)
      show ?thesis
      proof (cases "handlers s w")
        case None
        with Some show ?thesis by (simp add: unschedule_def)
      next
        case (Some hs)
        let ?s0 = "s\<lparr> handlers := (handlers s)(w := None) \<rparr>"
        have r0: "registry_inv ?s0" using r by (simp add: registry_inv_def)
        have e0: "emitter_for_watch ?s0 w = Some em" using \<open>emitter_for_watch s w = Some em\<close> by simp
        from remove_emitter_registered [OF r0 e0] obtain s2 where
          2: "remove_emitter em ?s0 = Return () s2"
             "emitter_for_watch s2 = (emitter_for_watch s)(w := None)" "watches s2 = watches s"
          by auto
        have "w \<in> watches s2" using 2(3) i \<open>emitter_for_watch s w = Some em\<close> by auto
        then show ?thesis
          using \<open>emitter_for_watch s w = Some em\<close> Some 2 i
          by (auto simp: unschedule_def split: if_splits)
      qed
    qed
  qed
  show "unschedule w s = Return () s1 \<longrightarrow> watches s1 = dom (emitter_for_watch s1)" by (rule u)
  show "unschedule w s = Raise e s1 \<longrightarrow> s1 = s" by (rule u')
  show "start list_of s = Return () s1 \<longrightarrow> watches s1 = dom (emitter_for_watch s1)"
  proof -
    have "start_emitters ems t = Return () t' \<Longrightarrow>
          watches t' = watches t \<and> emitter_for_watch t' = emitter_for_watch t" for ems and t t' :: "('h, 'e, 'c) observer"
    proof (induction ems arbitrary: t)
      case Nil
      then show ?case by simp
    next
      case (Cons em ems)
      then show ?case
        by (auto simp: emitter_start_def split: result.splits option.splits sum.splits)
    qed
    then show ?thesis using i
      by (auto simp: start_def split: result.splits sum.splits)
  qed
qed

end
